theory Spec2Isabelle
  imports Complex_Main
begin

section \<open>Common types\<close>

text \<open>
  A \<open>double\<close> or \<open>float\<close> is modelled by the real number it denotes. The operations
  modelled below store, copy and compare such values; they compute with them only for the
  principal point in the constructor and in \<open>keyNormalized\<close>, where the one case in which
  a division has no finite result (a zero divisor) is made explicit in \<open>ddiv\<close>.
\<close>

type_synonym double = real
type_synonym float = real
type_synonym Vector2d = "double \<times> double"
type_synonym Vector3d = "double \<times> double \<times> double"

text \<open>\<open>NViewMatch\<close> is \<open>unordered_map<int,int>\<close>: camera index to key index.\<close>

type_synonym NViewMatch = "int \<rightharpoonup> int"

text \<open>
  \<open>OutOfRange\<close> is the \<open>std::out_of_range\<close> thrown by \<open>unordered_map::at\<close>, and
  \<open>LengthError\<close> the \<open>std::length_error\<close> thrown by \<open>vector::reserve\<close>.
  \<open>UndefinedBehaviour\<close> stands for an access outside a \<open>std::vector\<close> or an Eigen
  array, after which the program has no defined state.
\<close>

datatype error = OutOfRange | LengthError | UndefinedBehaviour

definition umap_at :: "NViewMatch \<Rightarrow> int \<Rightarrow> error + int" where
  "umap_at m k = (case m k of None \<Rightarrow> Inl OutOfRange | Some v \<Rightarrow> Inr v)"

text \<open>\<open>unordered_map::emplace\<close> inserts only when the key is absent.\<close>

definition umap_emplace :: "int \<Rightarrow> int \<Rightarrow> NViewMatch \<Rightarrow> NViewMatch" where
  "umap_emplace k v m = (case m k of None \<Rightarrow> m(k \<mapsto> v) | Some _ \<Rightarrow> m)"

definition umap_erase :: "int \<Rightarrow> NViewMatch \<Rightarrow> NViewMatch" where
  "umap_erase k m = m(k := None)"

text \<open>\<open>v[i]\<close> on a \<open>std::vector\<close> with an \<open>int\<close> index.\<close>

definition vec_index :: "'a list \<Rightarrow> int \<Rightarrow> error + 'a" where
  "vec_index v i = (if 0 \<le> i \<and> nat i < length v then Inr (v ! nat i) else Inl UndefinedBehaviour)"

section \<open>The track store\<close>

text \<open>
  The classes are declared in a header that is not among the sources; the fields below are
  the members that the member functions read and write, without the trailing underscore
  of the private ones.
\<close>

record SplitNViewMatch =
  observedPart :: NViewMatch
  unobservedPart :: NViewMatch

record PointData =
  reconstructed :: NViewMatch
  toReconstruct :: NViewMatch

record Points =
  matchesToReconstruct :: "NViewMatch list"
  ptCoord :: "Vector3d list"
  ptData :: "PointData list"

text \<open>A default-constructed \<open>Points\<close>: three empty vectors.\<close>

definition Points_init :: Points where
  "Points_init = \<lparr>matchesToReconstruct = [], ptCoord = [], ptData = []\<rparr>"

subsection \<open>Helpers from the utilities header\<close>

text \<open>
  Modelled from the spec: \<open>filterVector\<close> is declared in the utilities header, which is not
  part of the sources at hand. The spec says of its caller that it ``compacts both parallel
  arrays in lock-step, preserving relative order; \<open>keepMask.size()\<close> must equal the current
  track count'', and that a mismatched mask length is undefined behaviour. The model walks
  mask and vector together, keeps the elements whose mask entry is set, and has no defined
  result when the two lengths differ.
\<close>

fun filterVector :: "bool list \<Rightarrow> 'a list \<Rightarrow> error + 'a list" where
  "filterVector [] [] = Inr []"
| "filterVector (k # keep) (x # v) =
     (case filterVector keep v of
        Inl e \<Rightarrow> Inl e
      | Inr r \<Rightarrow> Inr (if k then x # r else r))"
| "filterVector _ _ = Inl UndefinedBehaviour"

text \<open>
  Modelled from the spec: \<open>filterOutOutliers\<close> is declared in the same missing header. The
  spec says that \<open>addPoints\<close> ``removes the consumed matches from the pending buffer'' and
  that entries of the buffer ``are consumed (filtered out) once turned into tracks''. The
  model clears the mask entry of every listed position (a position outside the array is an
  out-of-bounds write) and then compacts the array with \<open>filterVector\<close>.
\<close>

fun markOutliers :: "int list \<Rightarrow> bool list \<Rightarrow> error + bool list" where
  "markOutliers [] keep = Inr keep"
| "markOutliers (i # outliers) keep =
     (if 0 \<le> i \<and> nat i < length keep
      then markOutliers outliers (keep[nat i := False])
      else Inl UndefinedBehaviour)"

definition filterOutOutliers :: "int list \<Rightarrow> 'a list \<Rightarrow> error + 'a list" where
  "filterOutOutliers outliers arr =
     (case markOutliers outliers (replicate (length arr) True) of
        Inl e \<Rightarrow> Inl e
      | Inr keep \<Rightarrow> filterVector keep arr)"

subsection \<open>Operations of \<open>Points\<close>\<close>

text \<open>
  What a call of a member function leaves behind. \<open>Done\<close>: the call returned, and the
  object is in the given state. \<open>Thrown\<close>: a \<open>std::out_of_range\<close> left the call, and the
  object is in the given state, with every change made before the throw. \<open>Undefined\<close>: the
  call indexed a vector out of bounds, after which the object has no defined state.
\<close>

datatype 'a outcome = Done 'a | Thrown 'a | Undefined

fun stateOf :: "'a outcome \<Rightarrow> 'a option" where
  "stateOf (Done s) = Some s"
| "stateOf (Thrown s) = Some s"
| "stateOf Undefined = None"

text \<open>
  \<open>ptCoord_.push_back(c)\<close> and \<open>ptData_.emplace_back()\<close>, the new entry holding \<open>e\<close>.
\<close>

definition pushPoint :: "Vector3d \<Rightarrow> PointData \<Rightarrow> Points \<Rightarrow> Points" where
  "pushPoint c e p = p\<lparr>ptCoord := ptCoord p @ [c], ptData := ptData p @ [e]\<rparr>"

text \<open>
  The loop of \<open>addPoints(camsIdxs, matchesToReconstructIdxs, coord)\<close>: one iteration per
  coordinate. It appends the coordinate and an empty entry, reads
  \<open>matchesToReconstructIdxs[i]\<close> (undefined when the index vector is shorter than
  \<open>coord\<close>) and the match it names, and fills the entry. In
  \<open>reconstructed[cam] = nViewMatch.at(cam)\<close> the language leaves open, before C++17,
  whether \<open>operator[]\<close> runs before \<open>at\<close>; when it does (\<open>lhsFirst\<close>), the key is in
  \<open>reconstructed\<close> with the value 0 at the moment \<open>at\<close> throws.
\<close>

fun addPoints_loop ::
  "bool \<Rightarrow> int \<times> int \<Rightarrow> int list \<Rightarrow> Vector3d list \<Rightarrow> Points \<Rightarrow> Points outcome" where
  "addPoints_loop lhsFirst camsIdxs idxs [] p = Done p"
| "addPoints_loop lhsFirst camsIdxs [] (c # coord) p = Undefined"
| "addPoints_loop lhsFirst camsIdxs (k # idxs) (c # coord) p =
     (case vec_index (matchesToReconstruct p) k of
        Inl e \<Rightarrow> Undefined
      | Inr nViewMatch \<Rightarrow>
          (case umap_at nViewMatch (fst camsIdxs) of
             Inl e \<Rightarrow>
               Thrown (pushPoint c
                 \<lparr>reconstructed = (if lhsFirst then [fst camsIdxs \<mapsto> 0] else Map.empty),
                  toReconstruct = Map.empty\<rparr> p)
           | Inr k1 \<Rightarrow>
               (case umap_at nViewMatch (snd camsIdxs) of
                  Inl e \<Rightarrow>
                    Thrown (pushPoint c
                      \<lparr>reconstructed =
                         (if lhsFirst then [fst camsIdxs \<mapsto> k1, snd camsIdxs \<mapsto> 0]
                          else [fst camsIdxs \<mapsto> k1]),
                       toReconstruct = Map.empty\<rparr> p)
                | Inr k2 \<Rightarrow>
                    addPoints_loop lhsFirst camsIdxs idxs coord
                      (pushPoint c
                         \<lparr>reconstructed = [fst camsIdxs \<mapsto> k1, snd camsIdxs \<mapsto> k2],
                          toReconstruct =
                            umap_erase (snd camsIdxs) (umap_erase (fst camsIdxs) nViewMatch)\<rparr>
                         p))))"

definition addPoints ::
  "bool \<Rightarrow> int \<times> int \<Rightarrow> int list \<Rightarrow> Vector3d list \<Rightarrow> Points \<Rightarrow> Points outcome" where
  "addPoints lhsFirst camsIdxs matchesToReconstructIdxs coord p =
     (case addPoints_loop lhsFirst camsIdxs matchesToReconstructIdxs coord p of
        Done p1 \<Rightarrow>
          (case filterOutOutliers matchesToReconstructIdxs (matchesToReconstruct p1) of
             Inl e \<Rightarrow> Undefined
           | Inr ms \<Rightarrow> Done (p1\<lparr>matchesToReconstruct := ms\<rparr>))
      | Thrown p1 \<Rightarrow> Thrown p1
      | Undefined \<Rightarrow> Undefined)"

text \<open>
  The bulk overload \<open>addPoints(pointCoord, pointViews)\<close> stores the two parts of each split
  match as they come; \<open>pointViews[i]\<close> is undefined when \<open>pointViews\<close> is the shorter vector.
\<close>

fun addPointsSplit :: "Vector3d list \<Rightarrow> SplitNViewMatch list \<Rightarrow> Points \<Rightarrow> Points outcome" where
  "addPointsSplit [] pointViews p = Done p"
| "addPointsSplit (c # pointCoord) [] p = Undefined"
| "addPointsSplit (c # pointCoord) (s # pointViews) p =
     addPointsSplit pointCoord pointViews
       (pushPoint c \<lparr>reconstructed = observedPart s, toReconstruct = unobservedPart s\<rparr> p)"

definition removePoints :: "bool list \<Rightarrow> Points \<Rightarrow> Points outcome" where
  "removePoints keep p =
     (case filterVector keep (ptCoord p) of
        Inl e \<Rightarrow> Undefined
      | Inr cs \<Rightarrow>
          (case filterVector keep (ptData p) of
             Inl e \<Rightarrow> Undefined
           | Inr ds \<Rightarrow> Done (p\<lparr>ptCoord := cs, ptData := ds\<rparr>)))"

definition numPts :: "Points \<Rightarrow> int" where
  "numPts p = int (length (ptCoord p))"

text \<open>
  \<open>markCamAsReconstructed(camIdx)\<close> visits every entry of \<open>ptData\<close> in order and reads the
  pending key with \<open>at\<close>, which throws at the first entry that has none: the entries
  before it are changed, that entry and the ones after it are not.
\<close>

fun markEntries :: "int \<Rightarrow> PointData list \<Rightarrow> PointData list outcome" where
  "markEntries camIdx [] = Done []"
| "markEntries camIdx (entry # rest) =
     (case umap_at (toReconstruct entry) camIdx of
        Inl e \<Rightarrow> Thrown (entry # rest)
      | Inr k \<Rightarrow>
          (let entry' = \<lparr>reconstructed = umap_emplace camIdx k (reconstructed entry),
                         toReconstruct = umap_erase camIdx (toReconstruct entry)\<rparr>
           in case markEntries camIdx rest of
                Done rest' \<Rightarrow> Done (entry' # rest')
              | Thrown rest' \<Rightarrow> Thrown (entry' # rest')
              | Undefined \<Rightarrow> Undefined))"

definition markCamAsReconstructed :: "int \<Rightarrow> Points \<Rightarrow> Points outcome" where
  "markCamAsReconstructed camIdx p =
     (case markEntries camIdx (ptData p) of
        Done d \<Rightarrow> Done (p\<lparr>ptData := d\<rparr>)
      | Thrown d \<Rightarrow> Thrown (p\<lparr>ptData := d\<rparr>)
      | Undefined \<Rightarrow> Undefined)"

text \<open>
  The two loops of the three-argument \<open>markCamAsReconstructed\<close>, on \<open>ptData\<close>. When \<open>at\<close>
  throws in the first loop, the entries promoted so far stay promoted and the second loop
  does not run.
\<close>

fun promoteInliers ::
  "int \<Rightarrow> int list \<Rightarrow> int list \<Rightarrow> PointData list \<Rightarrow> PointData list outcome" where
  "promoteInliers camIdx correspondingPoints [] d = Done d"
| "promoteInliers camIdx correspondingPoints (inlierIdx # inliers) d =
     (case vec_index correspondingPoints inlierIdx of
        Inl e \<Rightarrow> Undefined
      | Inr ptIdx \<Rightarrow>
          (case vec_index d ptIdx of
             Inl e \<Rightarrow> Undefined
           | Inr entry \<Rightarrow>
               (case umap_at (toReconstruct entry) camIdx of
                  Inl e \<Rightarrow> Thrown d
                | Inr k \<Rightarrow>
                    promoteInliers camIdx correspondingPoints inliers
                      (d[nat ptIdx :=
                           entry\<lparr>reconstructed := umap_emplace camIdx k (reconstructed entry)\<rparr>]))))"

fun erasePending :: "int \<Rightarrow> int list \<Rightarrow> PointData list \<Rightarrow> PointData list outcome" where
  "erasePending camIdx [] d = Done d"
| "erasePending camIdx (ptIdx # correspondingPoints) d =
     (case vec_index d ptIdx of
        Inl e \<Rightarrow> Undefined
      | Inr entry \<Rightarrow>
          erasePending camIdx correspondingPoints
            (d[nat ptIdx := entry\<lparr>toReconstruct := umap_erase camIdx (toReconstruct entry)\<rparr>]))"

definition markCamAsReconstructedInliers ::
  "int \<Rightarrow> int list \<Rightarrow> int list \<Rightarrow> Points \<Rightarrow> Points outcome" where
  "markCamAsReconstructedInliers camIdx correspondingPoints correspondingPointsInliers p =
     (case promoteInliers camIdx correspondingPoints correspondingPointsInliers (ptData p) of
        Done d1 \<Rightarrow>
          (case erasePending camIdx correspondingPoints d1 of
             Done d2 \<Rightarrow> Done (p\<lparr>ptData := d2\<rparr>)
           | Thrown d2 \<Rightarrow> Thrown (p\<lparr>ptData := d2\<rparr>)
           | Undefined \<Rightarrow> Undefined)
      | Thrown d1 \<Rightarrow> Thrown (p\<lparr>ptData := d1\<rparr>)
      | Undefined \<Rightarrow> Undefined)"

subsection \<open>Sequences of operations\<close>

text \<open>
  The calls a client can make on a \<open>Points\<close> object. \<open>WriteMatches\<close> is an assignment through
  the reference returned by the non-const accessor \<open>matchesToReconstruct()\<close>, which is how
  the pending buffer is filled.
\<close>

datatype PointsOp =
    AddPoints "int \<times> int" "int list" "Vector3d list"
  | AddPointsSplit "Vector3d list" "SplitNViewMatch list"
  | RemovePoints "bool list"
  | MarkCam int
  | MarkCamInliers int "int list" "int list"
  | WriteMatches "NViewMatch list"

fun exec :: "bool \<Rightarrow> PointsOp \<Rightarrow> Points \<Rightarrow> Points outcome" where
  "exec lhsFirst (AddPoints camsIdxs idxs coord) p = addPoints lhsFirst camsIdxs idxs coord p"
| "exec lhsFirst (AddPointsSplit pointCoord pointViews) p = addPointsSplit pointCoord pointViews p"
| "exec lhsFirst (RemovePoints keep) p = removePoints keep p"
| "exec lhsFirst (MarkCam camIdx) p = markCamAsReconstructed camIdx p"
| "exec lhsFirst (MarkCamInliers camIdx cps inl) p = markCamAsReconstructedInliers camIdx cps inl p"
| "exec lhsFirst (WriteMatches ms) p = Done (p\<lparr>matchesToReconstruct := ms\<rparr>)"

text \<open>
  A run performs the calls one after the other. After a call that threw, the client goes
  on with the object as the throw left it; after undefined behaviour there is no state.
\<close>

fun run :: "bool \<Rightarrow> PointsOp list \<Rightarrow> Points \<Rightarrow> Points option" where
  "run lhsFirst [] p = Some p"
| "run lhsFirst (opn # ops) p =
     (case stateOf (exec lhsFirst opn p) of
        None \<Rightarrow> None
      | Some p' \<Rightarrow> run lhsFirst ops p')"

definition disjointParts :: "PointData \<Rightarrow> bool" where
  "disjointParts e \<longleftrightarrow> dom (reconstructed e) \<inter> dom (toReconstruct e) = {}"

text \<open>
  The condition under which the bulk overload is given a partition: the two parts of every
  split match it stores have no camera in common.
\<close>

fun splitsDisjoint :: "PointsOp \<Rightarrow> bool" where
  "splitsDisjoint (AddPointsSplit pointCoord pointViews) =
     (\<forall>s\<in>set (take (length pointCoord) pointViews).
        dom (observedPart s) \<inter> dom (unobservedPart s) = {})"
| "splitsDisjoint _ = True"

text \<open>
  The condition that, in a run, a three-argument \<open>markCamAsReconstructed\<close> that throws
  does so before it has changed the store, that is, at its first inlier.
\<close>

fun isMarkCamInliers :: "PointsOp \<Rightarrow> bool" where
  "isMarkCamInliers (MarkCamInliers camIdx cps inl) = True"
| "isMarkCamInliers _ = False"

fun inlierThrowsChangeNothing :: "bool \<Rightarrow> PointsOp list \<Rightarrow> Points \<Rightarrow> bool" where
  "inlierThrowsChangeNothing lhsFirst [] p = True"
| "inlierThrowsChangeNothing lhsFirst (opn # ops) p =
     (case exec lhsFirst opn p of
        Done p' \<Rightarrow> inlierThrowsChangeNothing lhsFirst ops p'
      | Thrown p' \<Rightarrow>
          (\<not> isMarkCamInliers opn \<or> ptData p' = ptData p) \<and>
          inlierThrowsChangeNothing lhsFirst ops p'
      | Undefined \<Rightarrow> True)"

text \<open>
  What it means for a track to be seeded from a match by a camera pair: \<open>reconstructed\<close>
  holds the two cameras of the pair with the keys the match gives them, and
  \<open>toReconstruct\<close> is the rest of the match.
\<close>

definition seededFrom :: "int \<times> int \<Rightarrow> NViewMatch \<Rightarrow> PointData \<Rightarrow> bool" where
  "seededFrom cp m e \<longleftrightarrow>
     dom (reconstructed e) = {fst cp, snd cp} \<and>
     reconstructed e (fst cp) = m (fst cp) \<and>
     reconstructed e (snd cp) = m (snd cp) \<and>
     toReconstruct e = m |` (- {fst cp, snd cp})"

section \<open>Cameras\<close>

text \<open>
  \<open>ArrayXXf\<close> is a dense column-major array of floats. A coefficient that was allocated
  by a resize and not written since has no defined value (\<open>None\<close>).
\<close>

record ArrayXXf =
  rows :: nat
  cols :: nat
  coeffs :: "float option list"

text \<open>
  Eigen's \<open>resize\<close> keeps the storage when the number of coefficients stays the same and
  allocates fresh, uninitialised storage otherwise; a negative dimension is a failed
  precondition of the library.
\<close>

definition resize :: "int \<Rightarrow> int \<Rightarrow> ArrayXXf \<Rightarrow> error + ArrayXXf" where
  "resize r c a =
     (if r < 0 \<or> c < 0 then Inl UndefinedBehaviour
      else if nat r * nat c = rows a * cols a
      then Inr (a\<lparr>rows := nat r, cols := nat c\<rparr>)
      else Inr \<lparr>rows = nat r, cols = nat c, coeffs = replicate (nat r * nat c) None\<rparr>)"

text \<open>\<open>a.col(idx) = d\<close>, where \<open>d\<close> maps the first \<open>rows\<close> floats behind a pointer.\<close>

definition setCol :: "nat \<Rightarrow> float list \<Rightarrow> ArrayXXf \<Rightarrow> error + ArrayXXf" where
  "setCol idx d a =
     (if idx < cols a \<and> rows a \<le> length d
      then Inr (a\<lparr>coeffs := take (idx * rows a) (coeffs a) @ map Some (take (rows a) d) @
                              drop (idx * rows a + rows a) (coeffs a)\<rparr>)
      else Inl UndefinedBehaviour)"

record Camera =
  imgWidth :: int
  imgHeight :: int
  imgFilename :: string
  keys :: "Vector2d list"
  descr :: ArrayXXf

text \<open>
  The constructor sets both dimensions to \<open>-1\<close> and lets \<open>getImgDims\<close> overwrite them;
  \<open>getImgDims\<close> reads the image file and is a parameter here (\<open>None\<close> when it leaves the
  dimensions alone).
\<close>

definition Camera_ctor :: "(string \<Rightarrow> (int \<times> int) option) \<Rightarrow> string \<Rightarrow> Camera" where
  "Camera_ctor getImgDims fn =
     (let (w, h) = (case getImgDims fn of None \<Rightarrow> (- 1, - 1) | Some wh \<Rightarrow> wh)
      in \<lparr>imgWidth = w, imgHeight = h, imgFilename = fn, keys = [],
          descr = \<lparr>rows = 0, cols = 0, coeffs = []\<rparr>\<rparr>)"

text \<open>
  \<open>reserveFeatures\<close> first reserves room for the keys, which changes no value but throws
  when the signed count, read as a size, is out of bounds.
\<close>

definition reserveFeatures :: "int \<Rightarrow> int \<Rightarrow> 'a Camera_scheme \<Rightarrow> error + 'a Camera_scheme" where
  "reserveFeatures num dim' cam =
     (if num < 0 then Inl LengthError
      else case resize dim' num (descr cam) of
             Inl e \<Rightarrow> Inl e
           | Inr a \<Rightarrow> Inr (cam\<lparr>descr := a\<rparr>))"

definition addFeature ::
  "double \<Rightarrow> double \<Rightarrow> float list \<Rightarrow> 'a Camera_scheme \<Rightarrow> error + 'a Camera_scheme" where
  "addFeature kx ky d cam =
     (let idx = length (keys cam)
      in case setCol idx d (descr cam) of
           Inl e \<Rightarrow> Inl e
         | Inr a \<Rightarrow> Inr (cam\<lparr>keys := keys cam @ [(kx, ky)], descr := a\<rparr>))"

definition clearDescriptors :: "'a Camera_scheme \<Rightarrow> error + 'a Camera_scheme" where
  "clearDescriptors cam =
     (case resize 0 0 (descr cam) of
        Inl e \<Rightarrow> Inl e
      | Inr a \<Rightarrow> Inr (cam\<lparr>descr := a\<rparr>))"

definition key :: "'a Camera_scheme \<Rightarrow> int \<Rightarrow> error + Vector2d" where
  "key cam i = vec_index (keys cam) i"

text \<open>
  \<open>AngleAxisd\<close> is an angle and an axis. Its default constructor initialises neither, so
  the field \<open>rot_\<close> has no value (\<open>None\<close>) until it is assigned.
\<close>

type_synonym AngleAxisd = "double \<times> Vector3d"
type_synonym Matrix3d = "Vector3d \<times> Vector3d \<times> Vector3d"

text \<open>
  The fields \<open>C_\<close>, \<open>rot_\<close>, \<open>f_\<close>, \<open>x0_\<close> are named \<open>camC\<close>, \<open>camRot\<close>, \<open>camF\<close>,
  \<open>camX0\<close>.
\<close>

record StandardCamera = Camera +
  camC :: Vector3d
  camRot :: "AngleAxisd option"
  camF :: double
  camX0 :: Vector2d
  paramsConstraints :: "double list"
  paramsConstraintsWeights :: "double list"

text \<open>
  Modelled from the spec: the layout constants \<open>nParams_\<close>, \<open>fIdx_\<close> and \<open>radIdx_\<close> are
  declared with the classes, in a header that is not at hand. The spec gives the
  parameter vector of a \<open>StandardCamera\<close> as \<open>[rotation(3), center(3), focal(1)]\<close>, 7
  scalars, and the radial variant as that layout extended by the two distortion
  coefficients.
\<close>

definition nParams :: nat where "nParams = 7"
definition fIdx :: nat where "fIdx = 6"
definition radIdx :: nat where "radIdx = 7"

definition StandardCamera_ctor :: "(string \<Rightarrow> (int \<times> int) option) \<Rightarrow> string \<Rightarrow> StandardCamera" where
  "StandardCamera_ctor getImgDims fn =
     (let base = Camera_ctor getImgDims fn
      in \<lparr>imgWidth = imgWidth base, imgHeight = imgHeight base,
          imgFilename = imgFilename base, keys = keys base, descr = descr base,
          camC = (0, 0, 0), camRot = None, camF = 0,
          camX0 = (0.5 * (real_of_int (imgWidth base) - 1),
                   0.5 * (real_of_int (imgHeight base) - 1)),
          paramsConstraints = replicate nParams 0,
          paramsConstraintsWeights = replicate nParams 0\<rparr>)"

definition setFocal :: "double \<Rightarrow> 'a StandardCamera_scheme \<Rightarrow> 'a StandardCamera_scheme" where
  "setFocal fv cam = cam\<lparr>camF := fv\<rparr>"

text \<open>\<open>v[i] = x\<close> on a \<open>std::vector\<close>.\<close>

definition vec_store :: "nat \<Rightarrow> 'a \<Rightarrow> 'a list \<Rightarrow> error + 'a list" where
  "vec_store i x v = (if i < length v then Inr (v[i := x]) else Inl UndefinedBehaviour)"

definition constrainFocal ::
  "double \<Rightarrow> double \<Rightarrow> 'a StandardCamera_scheme \<Rightarrow> error + 'a StandardCamera_scheme" where
  "constrainFocal constraint weight cam =
     (case vec_store fIdx constraint (paramsConstraints cam) of
        Inl e \<Rightarrow> Inl e
      | Inr pc \<Rightarrow>
          (case vec_store fIdx weight (paramsConstraintsWeights cam) of
             Inl e \<Rightarrow> Inl e
           | Inr pw \<Rightarrow> Inr (cam\<lparr>paramsConstraints := pc, paramsConstraintsWeights := pw\<rparr>)))"

text \<open>
  \<open>setRotation\<close> converts a rotation matrix with Eigen's \<open>fromRotationMatrix\<close>, which is a
  parameter here.
\<close>

definition setRotation ::
  "(Matrix3d \<Rightarrow> AngleAxisd) \<Rightarrow> Matrix3d \<Rightarrow> 'a StandardCamera_scheme \<Rightarrow> 'a StandardCamera_scheme" where
  "setRotation fromRotationMatrix R cam = cam\<lparr>camRot := Some (fromRotationMatrix R)\<rparr>"

definition setC :: "Vector3d \<Rightarrow> 'a StandardCamera_scheme \<Rightarrow> 'a StandardCamera_scheme" where
  "setC Cv cam = cam\<lparr>camC := Cv\<rparr>"

text \<open>The loop of \<open>setParamsConstraints\<close>, from index \<open>i\<close> on.\<close>

function setParamsConstraints_loop ::
  "nat \<Rightarrow> double list \<Rightarrow> double list \<Rightarrow> double list \<times> double list \<Rightarrow>
   error + double list \<times> double list" where
  "setParamsConstraints_loop i constraints weights (pc, pw) =
     (if i < length pc
      then (if i < length constraints \<and> i < length weights \<and> i < length pw
            then setParamsConstraints_loop (Suc i) constraints weights
                   (pc[i := constraints ! i], pw[i := weights ! i])
            else Inl UndefinedBehaviour)
      else Inr (pc, pw))"
  by pat_completeness auto
termination
  by (relation "measure (\<lambda>(i, constraints, weights, pc, pw). length pc - i)") auto

definition setParamsConstraints ::
  "double list \<Rightarrow> double list \<Rightarrow> 'a StandardCamera_scheme \<Rightarrow> error + 'a StandardCamera_scheme" where
  "setParamsConstraints constraints weights cam =
     (case setParamsConstraints_loop 0 constraints weights
             (paramsConstraints cam, paramsConstraintsWeights cam) of
        Inl e \<Rightarrow> Inl e
      | Inr (pc, pw) \<Rightarrow> Inr (cam\<lparr>paramsConstraints := pc, paramsConstraintsWeights := pw\<rparr>))"

text \<open>
  Division of doubles. A zero divisor gives an infinity or a NaN, which is no real
  number: the quotient is \<open>None\<close>.
\<close>

definition ddiv :: "double \<Rightarrow> double \<Rightarrow> double option" where
  "ddiv a b = (if b = 0 then None else Some (a / b))"

definition StandardCamera_keyNormalized ::
  "'a StandardCamera_scheme \<Rightarrow> int \<Rightarrow> error + double option \<times> double option" where
  "StandardCamera_keyNormalized cam i =
     (case key cam i of
        Inl e \<Rightarrow> Inl e
      | Inr (kx, ky) \<Rightarrow>
          Inr (ddiv (kx - fst (camX0 cam)) (camF cam), ddiv (ky - snd (camX0 cam)) (camF cam)))"

record StandardCameraRadial = StandardCamera +
  radParams :: "double \<times> double"
  invRadParams :: "double \<times> double \<times> double \<times> double"

definition StandardCameraRadial_ctor ::
  "(string \<Rightarrow> (int \<times> int) option) \<Rightarrow> string \<Rightarrow> StandardCameraRadial" where
  "StandardCameraRadial_ctor getImgDims fn =
     (let base = StandardCamera_ctor getImgDims fn
      in \<lparr>imgWidth = imgWidth base, imgHeight = imgHeight base,
          imgFilename = imgFilename base, keys = keys base, descr = descr base,
          camC = camC base, camRot = camRot base, camF = camF base, camX0 = camX0 base,
          paramsConstraints = paramsConstraints base @ [0, 0],
          paramsConstraintsWeights = paramsConstraintsWeights base @ [0, 0],
          radParams = (0, 0), invRadParams = (0, 0, 0, 0)\<rparr>)"

definition constrainRadial ::
  "double \<times> double \<Rightarrow> double \<times> double \<Rightarrow> 'a StandardCamera_scheme \<Rightarrow>
   error + 'a StandardCamera_scheme" where
  "constrainRadial constraints weights cam =
     (case vec_store (radIdx + 0) (fst constraints) (paramsConstraints cam) of
        Inl e \<Rightarrow> Inl e
      | Inr pc0 \<Rightarrow>
          (case vec_store (radIdx + 1) (snd constraints) pc0 of
             Inl e \<Rightarrow> Inl e
           | Inr pc \<Rightarrow>
               (case vec_store (radIdx + 0) (fst weights) (paramsConstraintsWeights cam) of
                  Inl e \<Rightarrow> Inl e
                | Inr pw0 \<Rightarrow>
                    (case vec_store (radIdx + 1) (snd weights) pw0 of
                       Inl e \<Rightarrow> Inl e
                     | Inr pw \<Rightarrow>
                         Inr (cam\<lparr>paramsConstraints := pc, paramsConstraintsWeights := pw\<rparr>)))))"

text \<open>
  The radial variant first calls the base \<open>keyNormalized\<close> and scales its result by a
  polynomial in its norm. Products and sums with an infinity or a NaN are again no real
  number.
\<close>

definition StandardCameraRadial_keyNormalized ::
  "StandardCameraRadial \<Rightarrow> int \<Rightarrow> error + double option \<times> double option" where
  "StandardCameraRadial_keyNormalized cam i =
     (case StandardCamera_keyNormalized cam i of
        Inl e \<Rightarrow> Inl e
      | Inr (Some dx, Some dy) \<Rightarrow>
          (let radius = sqrt (dx * dx + dy * dy);
               (i0, i1, i2, i3) = invRadParams cam;
               undistortFactor = 1 + radius * (i0 + radius * (i1 + radius * (i2 + radius * i3)))
           in Inr (Some (undistortFactor * dx), Some (undistortFactor * dy)))
      | Inr _ \<Rightarrow> Inr (None, None))"

text \<open>
  The member functions of a camera that do not assign the focal length, that is, all
  mutators of the three classes except \<open>setFocal\<close> and the two \<open>setParams\<close>.
\<close>

datatype CameraOp =
    ReserveFeatures int int
  | AddFeature double double "float list"
  | ClearDescriptors
  | ConstrainFocal double double
  | SetRotation Matrix3d
  | SetC Vector3d
  | SetParamsConstraints "double list" "double list"
  | ConstrainRadial "double \<times> double" "double \<times> double"

fun camExec ::
  "(Matrix3d \<Rightarrow> AngleAxisd) \<Rightarrow> CameraOp \<Rightarrow> 'a StandardCamera_scheme \<Rightarrow>
   error + 'a StandardCamera_scheme" where
  "camExec frm (ReserveFeatures num dim') cam = reserveFeatures num dim' cam"
| "camExec frm (AddFeature kx ky d) cam = addFeature kx ky d cam"
| "camExec frm ClearDescriptors cam = clearDescriptors cam"
| "camExec frm (ConstrainFocal c w) cam = constrainFocal c w cam"
| "camExec frm (SetRotation R) cam = Inr (setRotation frm R cam)"
| "camExec frm (SetC Cv) cam = Inr (setC Cv cam)"
| "camExec frm (SetParamsConstraints cs ws) cam = setParamsConstraints cs ws cam"
| "camExec frm (ConstrainRadial cs ws) cam = constrainRadial cs ws cam"

fun camRun ::
  "(Matrix3d \<Rightarrow> AngleAxisd) \<Rightarrow> CameraOp list \<Rightarrow> 'a StandardCamera_scheme \<Rightarrow>
   error + 'a StandardCamera_scheme" where
  "camRun frm [] cam = Inr cam"
| "camRun frm (opn # ops) cam =
     (case camExec frm opn cam of Inl e \<Rightarrow> Inl e | Inr cam' \<Rightarrow> camRun frm ops cam')"

section \<open>Dataset\<close>

text \<open>
  A \<open>unique_ptr<Camera>\<close> owns one object of one of the three classes; the owned object is
  modelled by its value together with its dynamic type. \<open>clone\<close> is virtual, and each
  class copy-constructs an object of its own type.
\<close>

datatype CameraPtr =
    ACamera Camera
  | AStandardCamera StandardCamera
  | AStandardCameraRadial StandardCameraRadial

fun clone :: "CameraPtr \<Rightarrow> CameraPtr" where
  "clone (ACamera c) = ACamera c"
| "clone (AStandardCamera c) = AStandardCamera c"
| "clone (AStandardCameraRadial c) = AStandardCameraRadial c"

text \<open>The pairwise data \<open>CameraPair\<close> is declared elsewhere and is a type parameter.\<close>

record 'cp Dataset =
  dir :: string
  cams :: "CameraPtr list"
  pairs :: "int \<times> int \<rightharpoonup> 'cp"
  reconstructedCams :: "int set"
  points :: Points

text \<open>
  \<open>copyIn\<close> assigns every member from the other dataset except \<open>cams_\<close>, to which it
  appends the clones. The two datasets are distinct objects.
\<close>

definition copyIn :: "'cp Dataset \<Rightarrow> 'cp Dataset \<Rightarrow> 'cp Dataset" where
  "copyIn this other =
     this\<lparr>dir := dir other,
          cams := fold (\<lambda>cam cs. cs @ [clone cam]) (cams other) (cams this),
          pairs := pairs other,
          reconstructedCams := reconstructedCams other,
          points := points other\<rparr>"

text \<open>The copy constructor runs \<open>copyIn\<close> on default-initialised members.\<close>

definition Dataset_copy :: "'cp Dataset \<Rightarrow> 'cp Dataset" where
  "Dataset_copy other =
     copyIn \<lparr>dir = [], cams = [], pairs = Map.empty, reconstructedCams = {},
             points = Points_init\<rparr> other"

text \<open>The copy assignment runs \<open>copyIn\<close> on the members the target already has.\<close>

definition Dataset_assign :: "'cp Dataset \<Rightarrow> 'cp Dataset \<Rightarrow> 'cp Dataset" where
  "Dataset_assign this other = copyIn this other"

section \<open>Feature detection\<close>

type_synonym SiftKeypoint = "float \<times> float \<times> float \<times> float"
type_synonym SiftFeature = "SiftKeypoint \<times> float list"

text \<open>
  Modelled from the spec: the detection code stores its results with
  \<open>Camera::resizeFeatures\<close> and \<open>Camera::setFeature\<close>, which belong to a revision of the
  camera class that is not at hand. The spec says that the detector ``produces, per
  camera, a set of 2D keypoints each with an associated high-dimensional descriptor
  vector'' and that the adapter ``writes results into a camera's descriptor storage''. The
  camera seen by the adapter has the image reference and the stored features, one entry
  per keypoint \<open>(x, y, scale, orientation)\<close> with its 128 floats.
\<close>

record FeatureCamera =
  fcFilename :: string
  fcWidth :: int
  fcHeight :: int
  features :: "SiftFeature list"

text \<open>
  The detector library is external. Its behaviour is given by whether \<open>CreateContextGL\<close>
  reports full support and by what \<open>RunSIFT\<close> finds in an image (\<open>None\<close> when it
  returns false).
\<close>

record SiftGPU =
  contextFullySupported :: bool
  runSIFT :: "string \<Rightarrow> SiftFeature list option"

text \<open>
  What the batch function does to the outside world, in order. The progress callback is
  client code: a call of it is recorded with its arguments, its body is not modelled.
\<close>

datatype ('f, 'o) Effect =
    ParseParam
  | CerrMessage string
  | AllocatePyramid int int
  | RunSIFT string
  | Callback 'f 'o int

text \<open>
  \<open>initializeSiftGPU\<close> forwards the options to the detector (their text has no bearing
  on what follows), creates the context and, if that worked, sizes the pyramid.
\<close>

definition initializeSiftGPU :: "SiftGPU \<Rightarrow> int \<Rightarrow> int \<Rightarrow> bool \<times> ('f, 'o) Effect list" where
  "initializeSiftGPU sift maxWidth maxHeight =
     (if \<not> contextFullySupported sift
      then (False, [ParseParam,
              CerrMessage ''ERROR: SiftGPUAutoMemRelease::initialize: Could not create OpenGL context.\<newline>''])
      else (True, [ParseParam, AllocatePyramid maxWidth maxHeight]))"

text \<open>The file-local \<open>detectSiftGPU(sift, cam)\<close>.\<close>

definition detectOne :: "SiftGPU \<Rightarrow> FeatureCamera \<Rightarrow> FeatureCamera" where
  "detectOne sift cam =
     (case runSIFT sift (fcFilename cam) of
        None \<Rightarrow> cam
      | Some fs \<Rightarrow> cam\<lparr>features := fs\<rparr>)"

fun maxDims :: "FeatureCamera list \<Rightarrow> int \<times> int \<Rightarrow> int \<times> int" where
  "maxDims [] (maxWidth, maxHeight) = (maxWidth, maxHeight)"
| "maxDims (pcam # pcams) (maxWidth, maxHeight) =
     maxDims pcams (max maxWidth (fcWidth pcam), max maxHeight (fcHeight pcam))"

text \<open>
  The second loop of the batch function. The callback pointer and its object pointer are
  options (\<open>None\<close> is \<open>NULL\<close>); \<open>done\<close> is passed to the callback and incremented after it.
  The counter is an \<open>int\<close> that counts cameras held in memory, far below its upper bound.
\<close>

fun detectLoop ::
  "SiftGPU \<Rightarrow> 'f option \<Rightarrow> 'o option \<Rightarrow> int \<Rightarrow> FeatureCamera list \<Rightarrow>
   FeatureCamera list \<times> ('f, 'o) Effect list" where
  "detectLoop sift callbackFunction callbackObjectPtr done [] = ([], [])"
| "detectLoop sift callbackFunction callbackObjectPtr done (pcam # pcams) =
     (let pcam' = detectOne sift pcam;
          called = (case (callbackFunction, callbackObjectPtr) of
                      (Some fn, Some ob) \<Rightarrow> [Callback fn ob done]
                    | _ \<Rightarrow> []);
          (pcams', effects) = detectLoop sift callbackFunction callbackObjectPtr (done + 1) pcams
      in (pcam' # pcams', RunSIFT (fcFilename pcam) # called @ effects))"

definition detectSiftGPU ::
  "SiftGPU \<Rightarrow> FeatureCamera list \<Rightarrow> 'f option \<Rightarrow> 'o option \<Rightarrow>
   FeatureCamera list \<times> ('f, 'o) Effect list" where
  "detectSiftGPU sift pcams callbackFunction callbackObjectPtr =
     (let (maxWidth, maxHeight) = maxDims pcams (- 1, - 1);
          (success, init) = initializeSiftGPU sift maxWidth maxHeight
      in if \<not> success then (pcams, init)
         else (let (pcams', effects) = detectLoop sift callbackFunction callbackObjectPtr 0 pcams
               in (pcams', init @ effects)))"

text \<open>The calls of the progress callback in a list of effects, with their arguments.\<close>

fun callbacks :: "('f, 'o) Effect list \<Rightarrow> ('f \<times> 'o \<times> int) list" where
  "callbacks [] = []"
| "callbacks (Callback fn ob n # es) = (fn, ob, n) # callbacks es"
| "callbacks (_ # es) = callbacks es"

text \<open>
  The reading of the progress argument as a completed count: every callback receives the
  number of detector runs that have finished before it is called. \<open>n\<close> is the number of
  runs seen so far.
\<close>

fun reportsCompletedCount :: "nat \<Rightarrow> ('f, 'o) Effect list \<Rightarrow> bool" where
  "reportsCompletedCount n [] = True"
| "reportsCompletedCount n (RunSIFT fn # es) = reportsCompletedCount (Suc n) es"
| "reportsCompletedCount n (Callback fn ob k # es) = (k = int n \<and> reportsCompletedCount n es)"
| "reportsCompletedCount n (_ # es) = reportsCompletedCount n es"

section \<open>Properties of the helpers\<close>

lemma filterVector_nths:
  "length keep = length v \<Longrightarrow> filterVector keep v = Inr (nths v {i. keep ! i})"
proof (induction keep v rule: filterVector.induct)
  case (2 k keep x v)
  then show ?case by (simp add: nths_Cons)
qed simp_all

lemma filterVector_Inr_length:
  "filterVector keep v = Inr r \<Longrightarrow> length keep = length v"
  by (induction keep v arbitrary: r rule: filterVector.induct) (auto split: sum.splits)

lemma filterVector_set:
  "filterVector keep v = Inr r \<Longrightarrow> set r \<subseteq> set v"
  using filterVector_nths[of keep v] filterVector_Inr_length[of keep v r]
  by (auto dest: in_set_nthsD)

lemma filterVector_same_length:
  "filterVector keep v = Inr r \<Longrightarrow> filterVector keep w = Inr s \<Longrightarrow> length r = length s"
proof (induction keep v arbitrary: r w s rule: filterVector.induct)
  case (2 k keep x v)
  then show ?case by (cases w) (auto split: sum.splits if_splits)
next
  case 1
  then show ?case by (cases w) auto
qed simp_all

lemma markOutliers_ok:
  "\<forall>i\<in>set outliers. 0 \<le> i \<and> nat i < length keep \<Longrightarrow>
   \<exists>keep'. markOutliers outliers keep = Inr keep' \<and> length keep' = length keep \<and>
     (\<forall>j<length keep. keep' ! j = (keep ! j \<and> int j \<notin> set outliers))"
proof (induction outliers arbitrary: keep)
  case Nil
  then show ?case by simp
next
  case (Cons i outliers)
  then have "\<forall>k\<in>set outliers. 0 \<le> k \<and> nat k < length (keep[nat i := False])" by simp
  from Cons.IH[OF this] obtain keep' where
    k: "markOutliers outliers (keep[nat i := False]) = Inr keep'"
       "length keep' = length keep"
       "\<forall>j<length keep. keep' ! j = ((keep[nat i := False]) ! j \<and> int j \<notin> set outliers)"
    by auto
  from Cons.prems have i: "0 \<le> i" "nat i < length keep" by auto
  have "\<forall>j<length keep. keep' ! j = (keep ! j \<and> int j \<notin> set (i # outliers))"
  proof (intro allI impI)
    fix j assume j: "j < length keep"
    show "keep' ! j = (keep ! j \<and> int j \<notin> set (i # outliers))"
      using k(3) j i by (cases "j = nat i") auto
  qed
  with k i show ?case by simp
qed

lemma filterOutOutliers_nths:
  assumes "\<forall>i\<in>set outliers. 0 \<le> i \<and> nat i < length arr"
  shows "filterOutOutliers outliers arr = Inr (nths arr {j. int j \<notin> set outliers})"
proof -
  from markOutliers_ok[of outliers "replicate (length arr) True"] assms obtain keep' where
    k: "markOutliers outliers (replicate (length arr) True) = Inr keep'"
       "length keep' = length arr"
       "\<forall>j<length arr. keep' ! j = (int j \<notin> set outliers)"
    by auto
  have "nths arr {i. keep' ! i} = nths arr {j. int j \<notin> set outliers}"
    unfolding nths_def using k(3)
    by (intro arg_cong[where f="map fst"] filter_cong refl) (auto simp: set_zip)
  with k filterVector_nths[of keep' arr] show ?thesis
    by (simp add: filterOutOutliers_def)
qed

section \<open>Properties of the track store\<close>

subsection \<open>Map and vector accesses\<close>

lemma umap_emplace_idem [simp]:
  "umap_emplace c k (umap_emplace c k m) = umap_emplace c k m"
  by (auto simp: umap_emplace_def split: option.splits)

lemma dom_umap_emplace [simp]: "dom (umap_emplace c k m) = insert c (dom m)"
  by (auto simp: umap_emplace_def split: option.splits)

lemma dom_umap_erase [simp]: "dom (umap_erase c m) = dom m - {c}"
  by (auto simp: umap_erase_def)

lemma umap_at_Inr [simp]: "umap_at m k = Inr v \<longleftrightarrow> m k = Some v"
  by (simp add: umap_at_def split: option.splits)

lemma umap_at_Inl [simp]: "umap_at m k = Inl e \<longleftrightarrow> m k = None \<and> e = OutOfRange"
  by (auto simp: umap_at_def split: option.splits)

lemma vec_index_Inr [simp]:
  "vec_index v i = Inr x \<longleftrightarrow> 0 \<le> i \<and> nat i < length v \<and> x = v ! nat i"
  by (auto simp: vec_index_def)

lemma vec_index_Inl [simp]:
  "vec_index v i = Inl e \<longleftrightarrow> \<not> (0 \<le> i \<and> nat i < length v) \<and> e = UndefinedBehaviour"
  by (auto simp: vec_index_def)

subsection \<open>Outcomes and seeding tracks from matches\<close>

lemma stateOf_Some: "stateOf r = Some s \<longleftrightarrow> r = Done s \<or> r = Thrown s"
  by (cases r) auto

lemma pushPoint_simps [simp]:
  "matchesToReconstruct (pushPoint c e p) = matchesToReconstruct p"
  "ptCoord (pushPoint c e p) = ptCoord p @ [c]"
  "ptData (pushPoint c e p) = ptData p @ [e]"
  by (simp_all add: pushPoint_def)

lemma addPoints_loop_state:
  "stateOf (addPoints_loop lf cp idxs coord p) = Some p' \<Longrightarrow>
     matchesToReconstruct p' = matchesToReconstruct p \<and>
     (\<exists>new. ptData p' = ptData p @ new \<and>
            length (ptCoord p') = length (ptCoord p) + length new \<and>
            (\<forall>e\<in>set new. disjointParts e))"
proof (induction lf cp idxs coord p arbitrary: p' rule: addPoints_loop.induct)
  case (1 lf cp idxs p)
  then show ?case by simp
next
  case (2 lf cp c coord p)
  then show ?case by simp
next
  case (3 lf camsIdxs k idxs c coord p)
  from "3.prems" obtain m where m: "vec_index (matchesToReconstruct p) k = Inr m"
    by (auto split: sum.splits)
  show ?case
  proof (cases "m (fst camsIdxs)")
    case None
    define e where "e = \<lparr>reconstructed = (if lf then [fst camsIdxs \<mapsto> 0] else Map.empty),
                  toReconstruct = Map.empty\<rparr>"
    from "3.prems" m None have "p' = pushPoint c e p"
      by (simp add: umap_at_def e_def)
    moreover have "disjointParts e" by (simp add: e_def disjointParts_def)
    ultimately show ?thesis by (intro conjI exI[of _ "[e]"]) simp_all
  next
    case (Some k1)
    note k1 = Some
    show ?thesis
    proof (cases "m (snd camsIdxs)")
      case None
      define e where "e = \<lparr>reconstructed =
                         (if lf then [fst camsIdxs \<mapsto> k1, snd camsIdxs \<mapsto> 0]
                          else [fst camsIdxs \<mapsto> k1]),
                       toReconstruct = Map.empty\<rparr>"
      from "3.prems" m k1 None have "p' = pushPoint c e p"
        by (simp add: umap_at_def e_def)
      moreover have "disjointParts e" by (simp add: e_def disjointParts_def)
      ultimately show ?thesis by (intro conjI exI[of _ "[e]"]) simp_all
    next
      case (Some k2)
      define e where "e = \<lparr>reconstructed = [fst camsIdxs \<mapsto> k1, snd camsIdxs \<mapsto> k2],
          toReconstruct = umap_erase (snd camsIdxs) (umap_erase (fst camsIdxs) m)\<rparr>"
      have a1: "umap_at m (fst camsIdxs) = Inr k1" and a2: "umap_at m (snd camsIdxs) = Inr k2"
        using k1 Some by simp_all
      from "3.prems" m k1 Some
      have r: "stateOf (addPoints_loop lf camsIdxs idxs coord (pushPoint c e p)) = Some p'"
        by (simp add: umap_at_def e_def)
      from "3.IH"[OF m a1 a2 r[unfolded e_def]] obtain new where
        n: "matchesToReconstruct p' = matchesToReconstruct p"
           "ptData p' = (ptData p @ [e]) @ new"
           "length (ptCoord p') = length (ptCoord p) + 1 + length new"
           "\<forall>e\<in>set new. disjointParts e"
        unfolding e_def by auto
      have "disjointParts e" by (auto simp: e_def disjointParts_def)
      with n show ?thesis by (intro conjI exI[of _ "e # new"]) auto
    qed
  qed
qed

lemma seededFrom_entry:
  "m a = Some k1 \<Longrightarrow> m b = Some k2 \<Longrightarrow>
   seededFrom (a, b) m \<lparr>reconstructed = [a \<mapsto> k1, b \<mapsto> k2],
                          toReconstruct = umap_erase b (umap_erase a m)\<rparr>"
  by (auto simp: seededFrom_def umap_erase_def restrict_map_def fun_eq_iff)

lemma addPoints_loop_ok:
  assumes "length coord \<le> length idxs"
    and "\<forall>k\<in>set (take (length coord) idxs). 0 \<le> k \<and> nat k < length (matchesToReconstruct p) \<and>
           (matchesToReconstruct p ! nat k) (fst cp) \<noteq> None \<and>
           (matchesToReconstruct p ! nat k) (snd cp) \<noteq> None"
  shows "\<exists>new. addPoints_loop lf cp idxs coord p =
            Done (p\<lparr>ptCoord := ptCoord p @ coord, ptData := ptData p @ new\<rparr>) \<and>
          list_all2 (\<lambda>k e. seededFrom cp (matchesToReconstruct p ! nat k) e)
            (take (length coord) idxs) new"
  using assms
proof (induction lf cp idxs coord p rule: addPoints_loop.induct)
  case (3 lf camsIdxs k idxs c coord p)
  from "3.prems" obtain k1 k2 where
    k: "0 \<le> k" "nat k < length (matchesToReconstruct p)"
       "(matchesToReconstruct p ! nat k) (fst camsIdxs) = Some k1"
       "(matchesToReconstruct p ! nat k) (snd camsIdxs) = Some k2"
    by auto
  let ?m = "matchesToReconstruct p ! nat k"
  have m: "vec_index (matchesToReconstruct p) k = Inr ?m"
    using k by simp
  have k1: "umap_at ?m (fst camsIdxs) = Inr k1" and k2: "umap_at ?m (snd camsIdxs) = Inr k2"
    using k by simp_all
  define e where "e = \<lparr>reconstructed = [fst camsIdxs \<mapsto> k1, snd camsIdxs \<mapsto> k2],
      toReconstruct = umap_erase (snd camsIdxs) (umap_erase (fst camsIdxs) ?m)\<rparr>"
  define p1 where "p1 = pushPoint c e p"
  have step: "addPoints_loop lf camsIdxs (k # idxs) (c # coord) p =
      addPoints_loop lf camsIdxs idxs coord p1"
    using k by (simp add: vec_index_def umap_at_def p1_def e_def)
  have e: "seededFrom camsIdxs ?m e"
    using seededFrom_entry[OF k(3,4)] by (simp add: e_def)
  from "3.IH"[OF m k1 k2] "3.prems" obtain new where
    n: "addPoints_loop lf camsIdxs idxs coord p1 =
          Done (p1\<lparr>ptCoord := ptCoord p1 @ coord, ptData := ptData p1 @ new\<rparr>)"
       "list_all2 (\<lambda>k e. seededFrom camsIdxs (matchesToReconstruct p ! nat k) e)
          (take (length coord) idxs) new"
    unfolding p1_def e_def by auto
  show ?case
    unfolding step using n e by (intro exI[of _ "e # new"]) (simp add: p1_def pushPoint_def)
qed simp_all

subsection \<open>Marking a camera as reconstructed\<close>

lemma markEntries_state:
  "stateOf (markEntries c d) = Some d' \<Longrightarrow>
     list_all2 (\<lambda>e e'. e' = e \<or>
        (reconstructed e' = umap_emplace c (the (toReconstruct e c)) (reconstructed e) \<and>
         toReconstruct e' = umap_erase c (toReconstruct e))) d d'"
proof (induction c d arbitrary: d' rule: markEntries.induct)
  case (1 camIdx)
  then show ?case by simp
next
  case (2 camIdx entry rest)
  show ?case
  proof (cases "toReconstruct entry camIdx")
    case None
    with "2.prems" have "d' = entry # rest" by (simp add: umap_at_def)
    then show ?thesis by (simp add: list_all2_refl)
  next
    case (Some k)
    define entry' where "entry' = \<lparr>reconstructed = umap_emplace camIdx k (reconstructed entry),
                         toReconstruct = umap_erase camIdx (toReconstruct entry)\<rparr>"
    from "2.prems" Some obtain rest' where
      r: "stateOf (markEntries camIdx rest) = Some rest'" "d' = entry' # rest'"
      by (auto simp: umap_at_def Let_def entry'_def split: outcome.splits)
    have a: "umap_at (toReconstruct entry) camIdx = Inr k" using Some by simp
    from "2.IH"[OF a refl r(1)] r(2) Some show ?thesis by (simp add: entry'_def)
  qed
qed

lemma markEntries_Done:
  "markEntries c d = Done d' \<Longrightarrow>
     list_all2 (\<lambda>e e'. toReconstruct e c \<noteq> None \<and>
        reconstructed e' = umap_emplace c (the (toReconstruct e c)) (reconstructed e) \<and>
        toReconstruct e' = umap_erase c (toReconstruct e)) d d'"
  by (induction c d arbitrary: d' rule: markEntries.induct)
     (auto simp: Let_def split: sum.splits outcome.splits)

lemma promoteInliers_length:
  "stateOf (promoteInliers c cps inl d) = Some d' \<Longrightarrow> length d' = length d"
proof (induction c cps inl d arbitrary: d' rule: promoteInliers.induct)
  case (1 camIdx cps d)
  then show ?case by simp
next
  case (2 camIdx cps inlierIdx inliers d)
  from "2.prems" obtain pt where pt: "vec_index cps inlierIdx = Inr pt"
    by (auto split: sum.splits)
  from "2.prems" pt obtain entry where en: "vec_index d pt = Inr entry"
    by (auto split: sum.splits)
  show ?case
  proof (cases "toReconstruct entry camIdx")
    case None
    with "2.prems" pt en show ?thesis by (simp add: umap_at_def)
  next
    case (Some k)
    then have a: "umap_at (toReconstruct entry) camIdx = Inr k" by simp
    from "2.prems" pt en Some have
      "stateOf (promoteInliers camIdx cps inliers
          (d[nat pt := entry\<lparr>reconstructed := umap_emplace camIdx k (reconstructed entry)\<rparr>])) = Some d'"
      by (simp add: umap_at_def)
    from "2.IH"[OF pt en a this] show ?thesis by simp
  qed
qed

lemma promoteInliers_Done:
  "promoteInliers c cps inl d = Done d' \<Longrightarrow>
     length d' = length d \<and>
     (\<forall>t<length d. toReconstruct (d' ! t) = toReconstruct (d ! t) \<and>
        reconstructed (d' ! t) =
          (if t \<in> (\<lambda>i. nat (cps ! nat i)) ` set inl
           then umap_emplace c (the (toReconstruct (d ! t) c)) (reconstructed (d ! t))
           else reconstructed (d ! t)))"
proof (induction c cps inl d arbitrary: d' rule: promoteInliers.induct)
  case (2 camIdx cps inlierIdx inliers d)
  from "2.prems" obtain k where
    i: "0 \<le> inlierIdx" "nat inlierIdx < length cps"
    and t: "0 \<le> cps ! nat inlierIdx" "nat (cps ! nat inlierIdx) < length d"
    and k: "toReconstruct (d ! nat (cps ! nat inlierIdx)) camIdx = Some k"
    by (auto split: sum.splits)
  let ?pt = "cps ! nat inlierIdx"
  let ?entry = "d ! nat ?pt"
  define d1 where "d1 = d[nat ?pt := ?entry\<lparr>reconstructed := umap_emplace camIdx k (reconstructed ?entry)\<rparr>]"
  have r: "promoteInliers camIdx cps inliers d1 = Done d'"
    using "2.prems" i t k by (simp add: d1_def vec_index_def umap_at_def)
  have v1: "vec_index cps inlierIdx = Inr ?pt" using i by simp
  have v2: "vec_index d ?pt = Inr ?entry" using t by simp
  have v3: "umap_at (toReconstruct ?entry) camIdx = Inr k" using k by simp
  note IH = "2.IH"[OF v1 v2 v3 r[unfolded d1_def]]
  have len: "length d1 = length d" by (simp add: d1_def)
  show ?case
  proof (intro conjI allI impI)
    show "length d' = length d" using IH by simp
  next
    fix u assume u: "u < length d"
    show "toReconstruct (d' ! u) = toReconstruct (d ! u)"
      using IH u by (cases "u = nat ?pt") (auto simp: nth_list_update)
  next
    fix u assume u: "u < length d"
    have IHu: "reconstructed (d' ! u) =
          (if u \<in> (\<lambda>i. nat (cps ! nat i)) ` set inliers
           then umap_emplace camIdx (the (toReconstruct (d1 ! u) camIdx)) (reconstructed (d1 ! u))
           else reconstructed (d1 ! u))"
      using IH u unfolding d1_def by simp
    show "reconstructed (d' ! u) =
          (if u \<in> (\<lambda>i. nat (cps ! nat i)) ` set (inlierIdx # inliers)
           then umap_emplace camIdx (the (toReconstruct (d ! u) camIdx)) (reconstructed (d ! u))
           else reconstructed (d ! u))"
    proof (cases "u = nat ?pt")
      case True
      then show ?thesis using IHu u k by (simp add: d1_def)
    next
      case False
      then show ?thesis using IHu u by (simp add: d1_def)
    qed
  qed
qed simp

lemma promoteInliers_Done_valid:
  "promoteInliers c cps inl d = Done d' \<Longrightarrow>
   \<forall>i\<in>set inl. 0 \<le> i \<and> nat i < length cps \<and> 0 \<le> cps ! nat i"
proof (induction c cps inl d arbitrary: d' rule: promoteInliers.induct)
  case (1 camIdx cps d)
  then show ?case by simp
next
  case (2 camIdx cps inlierIdx inliers d)
  from "2.prems" obtain pt where pt: "vec_index cps inlierIdx = Inr pt"
    by (cases "vec_index cps inlierIdx") simp_all
  from "2.prems" pt obtain entry where en: "vec_index d pt = Inr entry"
    by (cases "vec_index d pt") simp_all
  from "2.prems" pt en obtain k where k: "umap_at (toReconstruct entry) camIdx = Inr k"
    by (cases "umap_at (toReconstruct entry) camIdx") simp_all
  from "2.prems" pt en k have
    r: "promoteInliers camIdx cps inliers
          (d[nat pt := entry\<lparr>reconstructed := umap_emplace camIdx k (reconstructed entry)\<rparr>]) = Done d'"
    by simp
  have "0 \<le> inlierIdx \<and> nat inlierIdx < length cps \<and> 0 \<le> cps ! nat inlierIdx"
    using pt en by simp
  with "2.IH"[OF pt en k r] show ?case by simp
qed

lemma promoteInliers_ok:
  "\<forall>i\<in>set inl. 0 \<le> i \<and> nat i < length cps \<and> 0 \<le> cps ! nat i \<and> nat (cps ! nat i) < length d \<and>
        toReconstruct (d ! nat (cps ! nat i)) c \<noteq> None \<Longrightarrow>
   \<exists>d'. promoteInliers c cps inl d = Done d'"
proof (induction inl arbitrary: d)
  case Nil
  then show ?case by simp
next
  case (Cons i inl)
  from Cons.prems obtain k where
    i: "0 \<le> i" "nat i < length cps" "0 \<le> cps ! nat i" "nat (cps ! nat i) < length d"
       "toReconstruct (d ! nat (cps ! nat i)) c = Some k"
    by auto
  let ?entry = "d ! nat (cps ! nat i)"
  let ?d1 = "d[nat (cps ! nat i) := ?entry\<lparr>reconstructed := umap_emplace c k (reconstructed ?entry)\<rparr>]"
  have "\<forall>j\<in>set inl. 0 \<le> j \<and> nat j < length cps \<and> 0 \<le> cps ! nat j \<and> nat (cps ! nat j) < length ?d1 \<and>
        toReconstruct (?d1 ! nat (cps ! nat j)) c \<noteq> None"
    using Cons.prems i by (auto simp: nth_list_update)
  from Cons.IH[OF this] show ?case using i by (simp add: vec_index_def umap_at_def)
qed

lemma erasePending_not_Thrown: "erasePending c cps d \<noteq> Thrown d'"
  by (induction c cps d rule: erasePending.induct) (auto split: sum.splits)

lemma erasePending_Done:
  "erasePending c cps d = Done d' \<Longrightarrow>
     length d' = length d \<and>
     (\<forall>t<length d. reconstructed (d' ! t) = reconstructed (d ! t) \<and>
        toReconstruct (d' ! t) =
          (if int t \<in> set cps then umap_erase c (toReconstruct (d ! t)) else toReconstruct (d ! t)))"
proof (induction c cps d arbitrary: d' rule: erasePending.induct)
  case (2 camIdx ptIdx cps d)
  from "2.prems" have t: "0 \<le> ptIdx" "nat ptIdx < length d"
    by (auto split: sum.splits)
  let ?entry = "d ! nat ptIdx"
  define d1 where "d1 = d[nat ptIdx := ?entry\<lparr>toReconstruct := umap_erase camIdx (toReconstruct ?entry)\<rparr>]"
  have r: "erasePending camIdx cps d1 = Done d'"
    using "2.prems" t by (simp add: d1_def vec_index_def)
  have v: "vec_index d ptIdx = Inr ?entry" using t by simp
  note IH = "2.IH"[OF v r[unfolded d1_def]]
  show ?case
  proof (intro conjI allI impI)
    show "length d' = length d" using IH by simp
  next
    fix u assume u: "u < length d"
    show "reconstructed (d' ! u) = reconstructed (d ! u)"
      using IH u by (cases "u = nat ptIdx") (auto simp: nth_list_update)
  next
    fix u assume u: "u < length d"
    have e: "umap_erase camIdx (umap_erase camIdx m) = umap_erase camIdx m" for m
      by (simp add: umap_erase_def)
    show "toReconstruct (d' ! u) =
          (if int u \<in> set (ptIdx # cps) then umap_erase camIdx (toReconstruct (d ! u))
           else toReconstruct (d ! u))"
    proof (cases "u = nat ptIdx")
      case True
      then show ?thesis using IH u t by (simp add: e)
    next
      case False
      then have "int u \<noteq> ptIdx" using t by auto
      then show ?thesis using IH u False by simp
    qed
  qed
qed simp

lemma erasePending_ok:
  "\<forall>t\<in>set cps. 0 \<le> t \<and> nat t < length d \<Longrightarrow> \<exists>d'. erasePending c cps d = Done d'"
proof (induction cps arbitrary: d)
  case Nil
  then show ?case by simp
next
  case (Cons t cps)
  then show ?case by (simp add: vec_index_def)
qed

subsection \<open>What every operation preserves\<close>

lemma addPoints_state:
  "stateOf (addPoints lf cp idxs coord p) = Some p' \<Longrightarrow>
   \<exists>p1. stateOf (addPoints_loop lf cp idxs coord p) = Some p1 \<and>
        ptData p' = ptData p1 \<and> ptCoord p' = ptCoord p1"
proof (cases "addPoints_loop lf cp idxs coord p")
  case (Done p1)
  assume "stateOf (addPoints lf cp idxs coord p) = Some p'"
  with Done obtain ms where "p' = p1\<lparr>matchesToReconstruct := ms\<rparr>"
    by (cases "filterOutOutliers idxs (matchesToReconstruct p1)") (auto simp: addPoints_def)
  with Done show ?thesis by simp
next
  case (Thrown p1)
  assume "stateOf (addPoints lf cp idxs coord p) = Some p'"
  with Thrown show ?thesis by (simp add: addPoints_def)
next
  case Undefined
  assume "stateOf (addPoints lf cp idxs coord p) = Some p'"
  with Undefined show ?thesis by (simp add: addPoints_def)
qed

lemma addPointsSplit_state:
  "stateOf (addPointsSplit coord views p) = Some p' \<Longrightarrow>
     addPointsSplit coord views p = Done p' \<and>
     length coord \<le> length views \<and>
     matchesToReconstruct p' = matchesToReconstruct p \<and>
     ptCoord p' = ptCoord p @ coord \<and>
     ptData p' = ptData p @
       map (\<lambda>s. \<lparr>reconstructed = observedPart s, toReconstruct = unobservedPart s\<rparr>)
         (take (length coord) views)"
proof (induction coord views p arbitrary: p' rule: addPointsSplit.induct)
  case (3 c pointCoord s pointViews p)
  from "3.IH"[of p'] "3.prems" show ?case by simp
qed simp_all

lemma removePoints_state:
  "stateOf (removePoints keep p) = Some p' \<Longrightarrow>
     removePoints keep p = Done p' \<and>
     matchesToReconstruct p' = matchesToReconstruct p \<and>
     filterVector keep (ptCoord p) = Inr (ptCoord p') \<and>
     filterVector keep (ptData p) = Inr (ptData p')"
  by (cases "filterVector keep (ptCoord p)"; cases "filterVector keep (ptData p)")
     (auto simp: removePoints_def)

lemma markCam_disjoint:
  assumes "stateOf (markEntries c d) = Some d'" and "\<forall>e\<in>set d. disjointParts e"
  shows "\<forall>e\<in>set d'. disjointParts e"
proof
  fix e' assume "e' \<in> set d'"
  then obtain i where i: "i < length d'" "e' = d' ! i" by (auto simp: in_set_conv_nth)
  from markEntries_state[OF assms(1)] i have l: "length d = length d'"
    and c: "e' = d ! i \<or>
      (reconstructed e' = umap_emplace c (the (toReconstruct (d ! i) c)) (reconstructed (d ! i)) \<and>
       toReconstruct e' = umap_erase c (toReconstruct (d ! i)))"
    by (auto simp: list_all2_conv_all_nth)
  from l i assms(2) have di: "disjointParts (d ! i)" by simp
  from c show "disjointParts e'"
  proof
    assume "e' = d ! i"
    with di show ?thesis by simp
  next
    assume "reconstructed e' = umap_emplace c (the (toReconstruct (d ! i) c)) (reconstructed (d ! i)) \<and>
       toReconstruct e' = umap_erase c (toReconstruct (d ! i))"
    then have "dom (reconstructed e') = insert c (dom (reconstructed (d ! i)))"
      "dom (toReconstruct e') = dom (toReconstruct (d ! i)) - {c}"
      by simp_all
    with di show ?thesis unfolding disjointParts_def by blast
  qed
qed

lemma markCamInliers_disjoint:
  assumes p: "promoteInliers c cps inl d = Done d1" and e: "erasePending c cps d1 = Done d2"
    and d: "\<forall>e\<in>set d. disjointParts e"
  shows "\<forall>e\<in>set d2. disjointParts e"
proof
  fix e' assume "e' \<in> set d2"
  then obtain t where t: "t < length d2" "e' = d2 ! t" by (auto simp: in_set_conv_nth)
  note P = promoteInliers_Done[OF p] and E = erasePending_Done[OF e]
  from P E t have tl: "t < length d" "t < length d1" by simp_all
  have dt: "disjointParts (d ! t)" using d tl by simp
  have tr: "toReconstruct e' =
      (if int t \<in> set cps then umap_erase c (toReconstruct (d ! t)) else toReconstruct (d ! t))"
    using P E t tl by simp
  have re: "reconstructed e' =
      (if t \<in> (\<lambda>i. nat (cps ! nat i)) ` set inl
       then umap_emplace c (the (toReconstruct (d ! t) c)) (reconstructed (d ! t))
       else reconstructed (d ! t))"
    using P E t tl by simp
  show "disjointParts e'"
  proof (cases "t \<in> (\<lambda>i. nat (cps ! nat i)) ` set inl")
    case False
    then show ?thesis using tr re dt by (auto simp: disjointParts_def)
  next
    case True
    then obtain i where i: "i \<in> set inl" "t = nat (cps ! nat i)" by auto
    from promoteInliers_Done_valid[OF p] i(1)
    have "0 \<le> i \<and> nat i < length cps \<and> 0 \<le> cps ! nat i" by blast
    then have "int t \<in> set cps" using i(2) by auto
    then show ?thesis using tr re dt True by (auto simp: disjointParts_def)
  qed
qed

lemma markCamInliers_cases:
  assumes "stateOf (markCamAsReconstructedInliers c cps inl p) = Some p'"
  shows "(\<exists>d1. promoteInliers c cps inl (ptData p) = Done d1 \<and>
               erasePending c cps d1 = Done (ptData p') \<and>
               markCamAsReconstructedInliers c cps inl p = Done p') \<or>
         (promoteInliers c cps inl (ptData p) = Thrown (ptData p') \<and>
          markCamAsReconstructedInliers c cps inl p = Thrown p')"
proof (cases "promoteInliers c cps inl (ptData p)")
  case (Done d1)
  show ?thesis
  proof (cases "erasePending c cps d1")
    case (Done d2)
    with \<open>promoteInliers c cps inl (ptData p) = Done d1\<close> assms show ?thesis
      by (auto simp: markCamAsReconstructedInliers_def)
  next
    case (Thrown d2)
    then show ?thesis by (simp add: erasePending_not_Thrown)
  next
    case Undefined
    with \<open>promoteInliers c cps inl (ptData p) = Done d1\<close> assms show ?thesis
      by (simp add: markCamAsReconstructedInliers_def)
  qed
next
  case (Thrown d1)
  with assms show ?thesis by (auto simp: markCamAsReconstructedInliers_def)
next
  case Undefined
  with assms show ?thesis by (simp add: markCamAsReconstructedInliers_def)
qed

lemma markCam_state:
  "stateOf (markCamAsReconstructed c p) = Some p' \<Longrightarrow>
   stateOf (markEntries c (ptData p)) = Some (ptData p') \<and> ptCoord p' = ptCoord p"
  by (cases "markEntries c (ptData p)") (auto simp: markCamAsReconstructed_def)

lemma exec_disjoint:
  assumes "splitsDisjoint opn" and "\<forall>e\<in>set (ptData p). disjointParts e"
    and "stateOf (exec lf opn p) = Some p'"
    and "exec lf opn p = Thrown p' \<Longrightarrow> \<not> isMarkCamInliers opn \<or> ptData p' = ptData p"
  shows "\<forall>e\<in>set (ptData p'). disjointParts e"
proof (cases opn)
  case (AddPoints cp idxs coord)
  with assms(3) have "stateOf (addPoints lf cp idxs coord p) = Some p'" by simp
  from addPoints_state[OF this] obtain p1 where
    "stateOf (addPoints_loop lf cp idxs coord p) = Some p1" "ptData p' = ptData p1"
    by blast
  with addPoints_loop_state[of lf cp idxs coord p p1] assms(2) show ?thesis by auto
next
  case (AddPointsSplit coord views)
  with assms(3) have "stateOf (addPointsSplit coord views p) = Some p'" by simp
  from addPointsSplit_state[OF this] have d: "ptData p' = ptData p @
       map (\<lambda>s. \<lparr>reconstructed = observedPart s, toReconstruct = unobservedPart s\<rparr>)
         (take (length coord) views)" by simp
  have "\<forall>e\<in>set (map (\<lambda>s. \<lparr>reconstructed = observedPart s, toReconstruct = unobservedPart s\<rparr>)
         (take (length coord) views)). disjointParts e"
    using assms(1) AddPointsSplit by (simp add: disjointParts_def)
  with assms(2) show ?thesis unfolding d by auto
next
  case (RemovePoints keep)
  with assms(3) have "filterVector keep (ptData p) = Inr (ptData p')"
    by (simp add: removePoints_state)
  from filterVector_set[OF this] assms(2) show ?thesis by auto
next
  case (MarkCam c)
  with assms(3) have "stateOf (markEntries c (ptData p)) = Some (ptData p')"
    by (simp add: markCam_state)
  from markCam_disjoint[OF this assms(2)] show ?thesis .
next
  case (MarkCamInliers c cps inl)
  with assms(3) have "stateOf (markCamAsReconstructedInliers c cps inl p) = Some p'" by simp
  from markCamInliers_cases[OF this] show ?thesis
  proof
    assume "\<exists>d1. promoteInliers c cps inl (ptData p) = Done d1 \<and>
               erasePending c cps d1 = Done (ptData p') \<and>
               markCamAsReconstructedInliers c cps inl p = Done p'"
    then obtain d1 where "promoteInliers c cps inl (ptData p) = Done d1"
      "erasePending c cps d1 = Done (ptData p')" by blast
    from markCamInliers_disjoint[OF this assms(2)] show ?thesis .
  next
    assume "promoteInliers c cps inl (ptData p) = Thrown (ptData p') \<and>
          markCamAsReconstructedInliers c cps inl p = Thrown p'"
    with assms(4) MarkCamInliers have "ptData p' = ptData p" by simp
    with assms(2) show ?thesis by simp
  qed
next
  case (WriteMatches ms)
  with assms(2,3) show ?thesis by auto
qed

lemma run_disjoint:
  "\<forall>opn\<in>set ops. splitsDisjoint opn \<Longrightarrow> inlierThrowsChangeNothing lf ops p \<Longrightarrow>
   \<forall>e\<in>set (ptData p). disjointParts e \<Longrightarrow>
   run lf ops p = Some p' \<Longrightarrow> \<forall>e\<in>set (ptData p'). disjointParts e"
proof (induction ops arbitrary: p)
  case Nil
  then show ?case by simp
next
  case (Cons opn ops)
  from Cons.prems(4) obtain p1 where
    s: "stateOf (exec lf opn p) = Some p1" "run lf ops p1 = Some p'"
    by (auto split: option.splits)
  have t: "\<not> isMarkCamInliers opn \<or> ptData p1 = ptData p" if "exec lf opn p = Thrown p1"
    using Cons.prems(2) that by simp
  have c: "inlierThrowsChangeNothing lf ops p1"
    using Cons.prems(2) s(1) by (cases "exec lf opn p") simp_all
  have "\<forall>e\<in>set (ptData p1). disjointParts e"
    using exec_disjoint[OF _ Cons.prems(3) s(1) t] Cons.prems(1) by simp
  from Cons.IH[OF _ c this s(2)] Cons.prems(1) show ?case by simp
qed

lemma exec_sizes:
  assumes "length (ptCoord p) = length (ptData p)" and "stateOf (exec lf opn p) = Some p'"
  shows "length (ptCoord p') = length (ptData p')"
proof (cases opn)
  case (AddPoints cp idxs coord)
  with assms(2) have "stateOf (addPoints lf cp idxs coord p) = Some p'" by simp
  from addPoints_state[OF this] obtain p1 where
    "stateOf (addPoints_loop lf cp idxs coord p) = Some p1" "ptData p' = ptData p1"
    "ptCoord p' = ptCoord p1"
    by blast
  with addPoints_loop_state[of lf cp idxs coord p p1] assms(1) show ?thesis by auto
next
  case (AddPointsSplit coord views)
  with assms(2) have "stateOf (addPointsSplit coord views p) = Some p'" by simp
  from addPointsSplit_state[OF this] assms(1) show ?thesis by simp
next
  case (RemovePoints keep)
  with assms(2) have "filterVector keep (ptCoord p) = Inr (ptCoord p')"
    "filterVector keep (ptData p) = Inr (ptData p')"
    by (simp_all add: removePoints_state)
  then show ?thesis by (rule filterVector_same_length)
next
  case (MarkCam c)
  with assms(2) have "stateOf (markEntries c (ptData p)) = Some (ptData p')" "ptCoord p' = ptCoord p"
    by (simp_all add: markCam_state)
  with markEntries_state[of c "ptData p" "ptData p'"] assms(1) show ?thesis
    by (auto dest: list_all2_lengthD)
next
  case (MarkCamInliers c cps inl)
  with assms(2) have s: "stateOf (markCamAsReconstructedInliers c cps inl p) = Some p'" by simp
  have pc: "ptCoord p' = ptCoord p"
    using s by (cases "promoteInliers c cps inl (ptData p)")
      (auto simp: markCamAsReconstructedInliers_def split: outcome.splits)
  from markCamInliers_cases[OF s] have "length (ptData p') = length (ptData p)"
  proof
    assume "\<exists>d1. promoteInliers c cps inl (ptData p) = Done d1 \<and>
               erasePending c cps d1 = Done (ptData p') \<and>
               markCamAsReconstructedInliers c cps inl p = Done p'"
    then obtain d1 where "promoteInliers c cps inl (ptData p) = Done d1"
      "erasePending c cps d1 = Done (ptData p')" by blast
    with promoteInliers_Done[of c cps inl "ptData p" d1] erasePending_Done[of c cps d1 "ptData p'"]
    show ?thesis by simp
  next
    assume "promoteInliers c cps inl (ptData p) = Thrown (ptData p') \<and>
          markCamAsReconstructedInliers c cps inl p = Thrown p'"
    then have "stateOf (promoteInliers c cps inl (ptData p)) = Some (ptData p')" by simp
    from promoteInliers_length[OF this] show ?thesis .
  qed
  with pc assms(1) show ?thesis by simp
next
  case (WriteMatches ms)
  with assms show ?thesis by auto
qed

lemma run_sizes:
  "length (ptCoord p) = length (ptData p) \<Longrightarrow> run lf ops p = Some p' \<Longrightarrow>
   length (ptCoord p') = length (ptData p')"
proof (induction ops arbitrary: p)
  case Nil
  then show ?case by simp
next
  case (Cons opn ops)
  from Cons.prems(2) obtain p1 where
    s: "stateOf (exec lf opn p) = Some p1" "run lf ops p1 = Some p'"
    by (auto split: option.splits)
  from Cons.IH[OF exec_sizes[OF Cons.prems(1) s(1)] s(2)] show ?case .
qed

section \<open>Claims about the track store\<close>

text \<open>
  C1, as stated. Every track of every state reached by a sequence of operations has
  disjoint \<open>reconstructed\<close> and \<open>toReconstruct\<close> key sets. This fails in two ways. The bulk
  overload of \<open>addPoints\<close> stores the two parts of a split match as they are given, and a
  split match whose parts both hold camera 0 gives a track that holds camera 0 twice. And
  the three-argument \<open>markCamAsReconstructed\<close>, on two tracks of which only the first has
  camera 2 pending, promotes camera 2 in the first track and throws at the second before
  its erasing loop has run, which leaves camera 2 in both maps of the first track.
\<close>

theorem tracks_disjoint_counterexample:
  "run False [AddPointsSplit [(0, 0, 0)] [\<lparr>observedPart = [0 \<mapsto> 0], unobservedPart = [0 \<mapsto> 1]\<rparr>]]
       Points_init =
     Some \<lparr>matchesToReconstruct = [], ptCoord = [(0, 0, 0)],
           ptData = [\<lparr>reconstructed = [0 \<mapsto> 0], toReconstruct = [0 \<mapsto> 1]\<rparr>]\<rparr>
   \<and> \<not> disjointParts \<lparr>reconstructed = [0 \<mapsto> 0], toReconstruct = [0 \<mapsto> 1]\<rparr>
   \<and> run False [AddPointsSplit [(0, 0, 1), (0, 0, 2)]
                  [\<lparr>observedPart = [0 \<mapsto> 1], unobservedPart = [2 \<mapsto> 5]\<rparr>,
                   \<lparr>observedPart = [0 \<mapsto> 2], unobservedPart = [3 \<mapsto> 6]\<rparr>],
                 MarkCamInliers 2 [0, 1] [0, 1]]
       Points_init =
     Some \<lparr>matchesToReconstruct = [], ptCoord = [(0, 0, 1), (0, 0, 2)],
           ptData = [\<lparr>reconstructed = [0 \<mapsto> 1, 2 \<mapsto> 5], toReconstruct = [2 \<mapsto> 5]\<rparr>,
                     \<lparr>reconstructed = [0 \<mapsto> 2], toReconstruct = [3 \<mapsto> 6]\<rparr>]\<rparr>
   \<and> \<not> disjointParts \<lparr>reconstructed = [0 \<mapsto> 1, 2 \<mapsto> 5], toReconstruct = [2 \<mapsto> 5]\<rparr>"
  by (simp add: Points_init_def pushPoint_def disjointParts_def markCamAsReconstructedInliers_def
      vec_index_def umap_at_def umap_emplace_def)

text \<open>
  C1, amended. In every state reached from the empty store by a sequence of calls of
  \<open>addPoints\<close> (both overloads), \<open>removePoints\<close>, \<open>markCamAsReconstructed\<close> (both
  overloads) and writes to the pending buffer, whether the calls returned or threw, the
  key sets of \<open>reconstructed\<close> and \<open>toReconstruct\<close> are disjoint in every track, provided
  that every split match stored by the bulk overload of \<open>addPoints\<close> has disjoint parts
  and that no three-argument \<open>markCamAsReconstructed\<close> has thrown after changing the
  store.
\<close>

theorem reachable_tracks_disjoint:
  assumes "\<forall>opn\<in>set ops. splitsDisjoint opn"
    and "inlierThrowsChangeNothing lhsFirst ops Points_init"
    and "run lhsFirst ops Points_init = Some p"
  shows "\<forall>e\<in>set (ptData p). disjointParts e"
  using run_disjoint[OF assms(1,2) _ assms(3)] by (simp add: Points_init_def)

theorem reachable_tracks_disjoint_witness:
  "run False [WriteMatches [[0 \<mapsto> 20, 1 \<mapsto> 21, 2 \<mapsto> 22]],
        AddPoints (0, 1) [0] [(0, 0, 1)],
        MarkCam 2,
        AddPointsSplit [(0, 0, 2)] [\<lparr>observedPart = [0 \<mapsto> 1], unobservedPart = [3 \<mapsto> 4]\<rparr>],
        WriteMatches [[0 \<mapsto> 7]],
        AddPoints (0, 5) [0] [(0, 0, 3)],
        MarkCam 3,
        MarkCamInliers 9 [0] [0]] Points_init =
     Some \<lparr>matchesToReconstruct = [[0 \<mapsto> 7]], ptCoord = [(0, 0, 1), (0, 0, 2), (0, 0, 3)],
          ptData = [\<lparr>reconstructed = [0 \<mapsto> 20, 1 \<mapsto> 21, 2 \<mapsto> 22], toReconstruct = Map.empty\<rparr>,
                    \<lparr>reconstructed = [0 \<mapsto> 1], toReconstruct = [3 \<mapsto> 4]\<rparr>,
                    \<lparr>reconstructed = [0 \<mapsto> 7], toReconstruct = Map.empty\<rparr>]\<rparr>
   \<and> disjointParts \<lparr>reconstructed = [0 \<mapsto> 20, 1 \<mapsto> 21, 2 \<mapsto> 22], toReconstruct = Map.empty\<rparr>
   \<and> disjointParts \<lparr>reconstructed = [0 \<mapsto> 1], toReconstruct = [3 \<mapsto> 4]\<rparr>
   \<and> disjointParts \<lparr>reconstructed = [0 \<mapsto> 7], toReconstruct = Map.empty\<rparr>"
proof -
  let ?ops = "[WriteMatches [[0 \<mapsto> 20, 1 \<mapsto> 21, 2 \<mapsto> (22::int)]],
        AddPoints (0, 1) [0] [(0, 0, 1)],
        MarkCam 2,
        AddPointsSplit [(0, 0, 2)] [\<lparr>observedPart = [0 \<mapsto> 1], unobservedPart = [3 \<mapsto> 4]\<rparr>],
        WriteMatches [[0 \<mapsto> 7]],
        AddPoints (0, 5) [0] [(0, 0, 3)],
        MarkCam 3,
        MarkCamInliers 9 [0] [0]]"
  let ?p = "\<lparr>matchesToReconstruct = [[0 \<mapsto> (7::int)]], ptCoord = [(0, 0, 1), (0, 0, 2), (0, 0, 3)],
          ptData = [\<lparr>reconstructed = [0 \<mapsto> 20, 1 \<mapsto> 21, 2 \<mapsto> 22], toReconstruct = Map.empty\<rparr>,
                    \<lparr>reconstructed = [0 \<mapsto> 1], toReconstruct = [3 \<mapsto> 4]\<rparr>,
                    \<lparr>reconstructed = [0 \<mapsto> 7], toReconstruct = Map.empty\<rparr>]\<rparr>"
  note defs = Points_init_def pushPoint_def addPoints_def vec_index_def umap_at_def umap_erase_def
        umap_emplace_def filterOutOutliers_def markCamAsReconstructed_def
        markCamAsReconstructedInliers_def
  have h1: "\<forall>opn\<in>set ?ops. splitsDisjoint opn" by simp
  have h2: "inlierThrowsChangeNothing False ?ops Points_init"
    by (simp add: defs fun_eq_iff)
  have h3: "run False ?ops Points_init = Some ?p"
    by (simp add: defs fun_eq_iff)
  from reachable_tracks_disjoint[OF h1 h2 h3] h3 show ?thesis by simp
qed

text \<open>
  C2, as stated. For every inlier index the pending key of \<open>camIdx\<close> is added to that
  track's \<open>reconstructed\<close>, and \<open>camIdx\<close> is removed from \<open>toReconstruct\<close> in every track of
  \<open>correspondingPoints\<close>. This fails in two ways. \<open>emplace\<close> does not overwrite: on a
  track that holds camera 2 in \<open>reconstructed\<close> with key 99 and in \<open>toReconstruct\<close> with
  key 5 (a track that the bulk overload of \<open>addPoints\<close> stores), the call returns and
  \<open>reconstructed\<close> still holds key 99. And when an inlier track has no pending key, \<open>at\<close>
  throws before the erasing loop has run: with two inlier tracks of which only the first
  has camera 2 pending, camera 2 is still in \<open>toReconstruct\<close> of the first track after the
  call.
\<close>

theorem inlier_promotion_counterexample:
  "run False [AddPointsSplit [(0, 0, 0)] [\<lparr>observedPart = [2 \<mapsto> 99], unobservedPart = [2 \<mapsto> 5]\<rparr>]]
       Points_init =
     Some \<lparr>matchesToReconstruct = [], ptCoord = [(0, 0, 0)],
           ptData = [\<lparr>reconstructed = [2 \<mapsto> 99], toReconstruct = [2 \<mapsto> 5]\<rparr>]\<rparr>
   \<and> markCamAsReconstructedInliers 2 [0] [0]
         \<lparr>matchesToReconstruct = [], ptCoord = [(0, 0, 0)],
          ptData = [\<lparr>reconstructed = [2 \<mapsto> 99], toReconstruct = [2 \<mapsto> 5]\<rparr>]\<rparr> =
       Done \<lparr>matchesToReconstruct = [], ptCoord = [(0, 0, 0)],
             ptData = [\<lparr>reconstructed = [2 \<mapsto> 99], toReconstruct = Map.empty\<rparr>]\<rparr>
   \<and> run False [AddPointsSplit [(0, 0, 1), (0, 0, 2)]
                  [\<lparr>observedPart = [0 \<mapsto> 1], unobservedPart = [2 \<mapsto> 5]\<rparr>,
                   \<lparr>observedPart = [0 \<mapsto> 2], unobservedPart = [3 \<mapsto> 6]\<rparr>]]
       Points_init =
     Some \<lparr>matchesToReconstruct = [], ptCoord = [(0, 0, 1), (0, 0, 2)],
           ptData = [\<lparr>reconstructed = [0 \<mapsto> 1], toReconstruct = [2 \<mapsto> 5]\<rparr>,
                     \<lparr>reconstructed = [0 \<mapsto> 2], toReconstruct = [3 \<mapsto> 6]\<rparr>]\<rparr>
   \<and> markCamAsReconstructedInliers 2 [0, 1] [0, 1]
         \<lparr>matchesToReconstruct = [], ptCoord = [(0, 0, 1), (0, 0, 2)],
          ptData = [\<lparr>reconstructed = [0 \<mapsto> 1], toReconstruct = [2 \<mapsto> 5]\<rparr>,
                    \<lparr>reconstructed = [0 \<mapsto> 2], toReconstruct = [3 \<mapsto> 6]\<rparr>]\<rparr> =
       Thrown \<lparr>matchesToReconstruct = [], ptCoord = [(0, 0, 1), (0, 0, 2)],
               ptData = [\<lparr>reconstructed = [0 \<mapsto> 1, 2 \<mapsto> 5], toReconstruct = [2 \<mapsto> 5]\<rparr>,
                         \<lparr>reconstructed = [0 \<mapsto> 2], toReconstruct = [3 \<mapsto> 6]\<rparr>]\<rparr>"
  by (simp add: Points_init_def pushPoint_def markCamAsReconstructedInliers_def
      vec_index_def umap_at_def umap_emplace_def umap_erase_def fun_eq_iff)

text \<open>
  C2, amended. The three-argument \<open>markCamAsReconstructed\<close>, called with inlier indices
  that point into \<open>correspondingPoints\<close>, track indices that point into the store, and a
  pending key of \<open>camIdx\<close> in every inlier track, returns normally and changes exactly
  this: in every track that an inlier index names, \<open>camIdx\<close> is a key of \<open>reconstructed\<close>
  afterwards, with the pending key when \<open>reconstructed\<close> had none for \<open>camIdx\<close> and with
  the key it already had otherwise; in every track of \<open>correspondingPoints\<close>, inlier or
  not, \<open>camIdx\<close> is removed from \<open>toReconstruct\<close>. So a track of \<open>correspondingPoints\<close>
  that no inlier index names loses the pending key and keeps its \<open>reconstructed\<close> map as
  it was. Every other key of both maps, every other track, the coordinates and the
  pending buffer stay as they were.
\<close>

theorem markCamAsReconstructedInliers_two_tier:
  assumes inl: "\<forall>i\<in>set inliers. 0 \<le> i \<and> nat i < length cps"
    and rng: "\<forall>t\<in>set cps. 0 \<le> t \<and> nat t < length (ptData p)"
    and pend: "\<forall>i\<in>set inliers. toReconstruct (ptData p ! nat (cps ! nat i)) c \<noteq> None"
  shows "\<exists>p'. markCamAsReconstructedInliers c cps inliers p = Done p' \<and>
      matchesToReconstruct p' = matchesToReconstruct p \<and>
      ptCoord p' = ptCoord p \<and>
      length (ptData p') = length (ptData p) \<and>
      (\<forall>t<length (ptData p).
         reconstructed (ptData p' ! t) =
           (if int t \<in> (\<lambda>i. cps ! nat i) ` set inliers \<and> reconstructed (ptData p ! t) c = None
            then (reconstructed (ptData p ! t))(c := toReconstruct (ptData p ! t) c)
            else reconstructed (ptData p ! t)) \<and>
         toReconstruct (ptData p' ! t) =
           (if int t \<in> set cps then (toReconstruct (ptData p ! t))(c := None)
            else toReconstruct (ptData p ! t)))"
proof -
  let ?d = "ptData p"
  let ?T = "(\<lambda>i. nat (cps ! nat i)) ` set inliers"
  have valid: "0 \<le> i \<and> nat i < length cps \<and> 0 \<le> cps ! nat i \<and> nat (cps ! nat i) < length ?d"
    if "i \<in> set inliers" for i
  proof -
    from inl that have i: "0 \<le> i" "nat i < length cps" by auto
    then have "cps ! nat i \<in> set cps" by simp
    with rng i show ?thesis by blast
  qed
  have "\<forall>i\<in>set inliers. 0 \<le> i \<and> nat i < length cps \<and> 0 \<le> cps ! nat i \<and>
          nat (cps ! nat i) < length ?d \<and> toReconstruct (?d ! nat (cps ! nat i)) c \<noteq> None"
    using valid pend by blast
  from promoteInliers_ok[OF this] obtain d1 where d1: "promoteInliers c cps inliers ?d = Done d1"
    by blast
  note P = promoteInliers_Done[OF d1]
  have "\<forall>t\<in>set cps. 0 \<le> t \<and> nat t < length d1" using rng P by simp
  from erasePending_ok[OF this] obtain d2 where d2: "erasePending c cps d1 = Done d2"
    by blast
  note E = erasePending_Done[OF d2]
  have r: "markCamAsReconstructedInliers c cps inliers p = Done (p\<lparr>ptData := d2\<rparr>)"
    using d1 d2 by (simp add: markCamAsReconstructedInliers_def)
  have T: "t \<in> ?T \<longleftrightarrow> int t \<in> (\<lambda>i. cps ! nat i) ` set inliers" for t
  proof
    assume "t \<in> ?T"
    then obtain i where i: "i \<in> set inliers" "t = nat (cps ! nat i)" by auto
    with valid[OF i(1)] have "int t = cps ! nat i" by simp
    with i(1) show "int t \<in> (\<lambda>i. cps ! nat i) ` set inliers" by blast
  next
    assume "int t \<in> (\<lambda>i. cps ! nat i) ` set inliers"
    then obtain i where i: "i \<in> set inliers" "int t = cps ! nat i" by auto
    then have "t = nat (cps ! nat i)" by simp
    with i(1) show "t \<in> ?T" by blast
  qed
  have rec: "reconstructed (d2 ! t) =
      (if int t \<in> (\<lambda>i. cps ! nat i) ` set inliers \<and> reconstructed (?d ! t) c = None
       then (reconstructed (?d ! t))(c := toReconstruct (?d ! t) c)
       else reconstructed (?d ! t))" if t: "t < length ?d" for t
  proof (cases "t \<in> ?T")
    case False
    with P E t T[of t] show ?thesis by simp
  next
    case True
    then obtain i where i: "i \<in> set inliers" "t = nat (cps ! nat i)" by auto
    with pend obtain k where k: "toReconstruct (?d ! t) c = Some k" by auto
    from P E t True have "reconstructed (d2 ! t) = umap_emplace c k (reconstructed (?d ! t))"
      using k by simp
    with True T[of t] k show ?thesis
      by (auto simp: umap_emplace_def split: option.splits)
  qed
  have tor: "toReconstruct (d2 ! t) =
      (if int t \<in> set cps then (toReconstruct (?d ! t))(c := None) else toReconstruct (?d ! t))"
    if "t < length ?d" for t
    using P E that by (simp add: umap_erase_def)
  show ?thesis
  proof (intro exI[of _ "p\<lparr>ptData := d2\<rparr>"] conjI allI impI)
    show "markCamAsReconstructedInliers c cps inliers p = Done (p\<lparr>ptData := d2\<rparr>)" by (fact r)
  next
    show "length (ptData (p\<lparr>ptData := d2\<rparr>)) = length ?d" using P E by simp
  next
    fix t assume "t < length ?d"
    then show "reconstructed (ptData (p\<lparr>ptData := d2\<rparr>) ! t) =
           (if int t \<in> (\<lambda>i. cps ! nat i) ` set inliers \<and> reconstructed (?d ! t) c = None
            then (reconstructed (?d ! t))(c := toReconstruct (?d ! t) c)
            else reconstructed (?d ! t))"
      using rec by simp
  next
    fix t assume "t < length ?d"
    then show "toReconstruct (ptData (p\<lparr>ptData := d2\<rparr>) ! t) =
           (if int t \<in> set cps then (toReconstruct (?d ! t))(c := None)
            else toReconstruct (?d ! t))"
      using tor by simp
  qed simp_all
qed

theorem markCamAsReconstructedInliers_two_tier_witness:
  "markCamAsReconstructedInliers 2 [0, 1] [0]
     \<lparr>matchesToReconstruct = [], ptCoord = [(0, 0, 1), (0, 0, 2)],
      ptData = [\<lparr>reconstructed = [0 \<mapsto> 1, 1 \<mapsto> 1], toReconstruct = [2 \<mapsto> 5, 3 \<mapsto> 8]\<rparr>,
                \<lparr>reconstructed = [0 \<mapsto> 2, 1 \<mapsto> 2], toReconstruct = [2 \<mapsto> 6]\<rparr>]\<rparr> =
   Done \<lparr>matchesToReconstruct = [], ptCoord = [(0, 0, 1), (0, 0, 2)],
      ptData = [\<lparr>reconstructed = [0 \<mapsto> 1, 1 \<mapsto> 1, 2 \<mapsto> 5], toReconstruct = [3 \<mapsto> 8]\<rparr>,
                \<lparr>reconstructed = [0 \<mapsto> 2, 1 \<mapsto> 2], toReconstruct = Map.empty\<rparr>]\<rparr>"
proof -
  let ?p = "\<lparr>matchesToReconstruct = [], ptCoord = [(0, 0, 1), (0, 0, 2)],
      ptData = [\<lparr>reconstructed = [0 \<mapsto> 1, 1 \<mapsto> 1], toReconstruct = [2 \<mapsto> (5::int), 3 \<mapsto> 8]\<rparr>,
                \<lparr>reconstructed = [0 \<mapsto> 2, 1 \<mapsto> 2], toReconstruct = [2 \<mapsto> 6]\<rparr>]\<rparr>"
  have h1: "\<forall>i\<in>set [0::int]. 0 \<le> i \<and> nat i < length [0, 1::int]" by simp
  have h2: "\<forall>t\<in>set [0, 1::int]. 0 \<le> t \<and> nat t < length (ptData ?p)" by simp
  have h3: "\<forall>i\<in>set [0::int]. toReconstruct (ptData ?p ! nat ([0, 1] ! nat i)) 2 \<noteq> None" by simp
  from markCamAsReconstructedInliers_two_tier[OF h1 h2 h3] obtain p' where
    r: "markCamAsReconstructedInliers 2 [0, 1] [0] ?p = Done p'" by blast
  have "markCamAsReconstructedInliers 2 [0, 1] [0] ?p =
   Done \<lparr>matchesToReconstruct = [], ptCoord = [(0, 0, 1), (0, 0, 2)],
      ptData = [\<lparr>reconstructed = [0 \<mapsto> 1, 1 \<mapsto> 1, 2 \<mapsto> 5], toReconstruct = [3 \<mapsto> 8]\<rparr>,
                \<lparr>reconstructed = [0 \<mapsto> 2, 1 \<mapsto> 2], toReconstruct = Map.empty\<rparr>]\<rparr>"
    by (simp add: markCamAsReconstructedInliers_def vec_index_def umap_at_def umap_erase_def
        umap_emplace_def fun_eq_iff)
  with r show ?thesis by simp
qed

text \<open>
  C3, evaluated on the code. The store below is the one reached by seeding two tracks from
  the matches \<open>{0\<rightarrow>10, 1\<rightarrow>11}\<close> and \<open>{0\<rightarrow>20, 1\<rightarrow>21, 2\<rightarrow>22}\<close> with the camera pair
  \<open>(0, 1)\<close>, whichever way the assignments in \<open>addPoints\<close> are evaluated. Its first track
  has no pending key for camera 2, so the one-argument \<open>markCamAsReconstructed(2)\<close> throws
  \<open>std::out_of_range\<close> at the first track and never reaches the second one: the store is
  left as it was, and the pending key of the second track for camera 2 is not promoted.
\<close>

theorem markCamAsReconstructed_throws_without_pending_key:
  "run False [WriteMatches [[0 \<mapsto> 10, 1 \<mapsto> 11], [0 \<mapsto> 20, 1 \<mapsto> 21, 2 \<mapsto> 22]],
        AddPoints (0, 1) [0, 1] [(0, 0, 1), (0, 0, 2)]] Points_init =
     Some \<lparr>matchesToReconstruct = [], ptCoord = [(0, 0, 1), (0, 0, 2)],
          ptData = [\<lparr>reconstructed = [0 \<mapsto> 10, 1 \<mapsto> 11], toReconstruct = Map.empty\<rparr>,
                    \<lparr>reconstructed = [0 \<mapsto> 20, 1 \<mapsto> 21], toReconstruct = [2 \<mapsto> 22]\<rparr>]\<rparr>
   \<and> run True [WriteMatches [[0 \<mapsto> 10, 1 \<mapsto> 11], [0 \<mapsto> 20, 1 \<mapsto> 21, 2 \<mapsto> 22]],
        AddPoints (0, 1) [0, 1] [(0, 0, 1), (0, 0, 2)]] Points_init =
     Some \<lparr>matchesToReconstruct = [], ptCoord = [(0, 0, 1), (0, 0, 2)],
          ptData = [\<lparr>reconstructed = [0 \<mapsto> 10, 1 \<mapsto> 11], toReconstruct = Map.empty\<rparr>,
                    \<lparr>reconstructed = [0 \<mapsto> 20, 1 \<mapsto> 21], toReconstruct = [2 \<mapsto> 22]\<rparr>]\<rparr>
   \<and> markCamAsReconstructed 2
        \<lparr>matchesToReconstruct = [], ptCoord = [(0, 0, 1), (0, 0, 2)],
         ptData = [\<lparr>reconstructed = [0 \<mapsto> 10, 1 \<mapsto> 11], toReconstruct = Map.empty\<rparr>,
                   \<lparr>reconstructed = [0 \<mapsto> 20, 1 \<mapsto> 21], toReconstruct = [2 \<mapsto> 22]\<rparr>]\<rparr> =
       Thrown
        \<lparr>matchesToReconstruct = [], ptCoord = [(0, 0, 1), (0, 0, 2)],
         ptData = [\<lparr>reconstructed = [0 \<mapsto> 10, 1 \<mapsto> 11], toReconstruct = Map.empty\<rparr>,
                   \<lparr>reconstructed = [0 \<mapsto> 20, 1 \<mapsto> 21], toReconstruct = [2 \<mapsto> 22]\<rparr>]\<rparr>"
  by (simp add: Points_init_def pushPoint_def addPoints_def vec_index_def umap_at_def
      umap_erase_def filterOutOutliers_def markCamAsReconstructed_def fun_eq_iff)

text \<open>
  C4. \<open>addPoints(cameraPair, matchIndices, coordinates)\<close>, called with an index for every
  coordinate, indices that point into the pending buffer, and both cameras of the pair
  present in each match that is used: it returns normally and appends one track per
  coordinate; in the \<open>i\<close>-th appended track \<open>reconstructed\<close> holds exactly the two cameras
  of the pair, with the keys that match \<open>matchIndices[i]\<close> gives them, and
  \<open>toReconstruct\<close> is the rest of that match; the pending buffer keeps, in order, the
  matches at the positions that \<open>matchIndices\<close> does not list.
\<close>

theorem addPoints_seeds_tracks:
  assumes len: "length coord \<le> length idxs"
    and rng: "\<forall>k\<in>set idxs. 0 \<le> k \<and> nat k < length (matchesToReconstruct p)"
    and obs: "\<forall>k\<in>set (take (length coord) idxs).
           (matchesToReconstruct p ! nat k) a \<noteq> None \<and> (matchesToReconstruct p ! nat k) b \<noteq> None"
  shows "\<exists>p'. addPoints lhsFirst (a, b) idxs coord p = Done p' \<and>
      ptCoord p' = ptCoord p @ coord \<and>
      length (ptData p') = length (ptData p) + length coord \<and>
      take (length (ptData p)) (ptData p') = ptData p \<and>
      (\<forall>i<length coord.
         dom (reconstructed (ptData p' ! (length (ptData p) + i))) = {a, b} \<and>
         reconstructed (ptData p' ! (length (ptData p) + i)) a =
           (matchesToReconstruct p ! nat (idxs ! i)) a \<and>
         reconstructed (ptData p' ! (length (ptData p) + i)) b =
           (matchesToReconstruct p ! nat (idxs ! i)) b \<and>
         toReconstruct (ptData p' ! (length (ptData p) + i)) =
           (matchesToReconstruct p ! nat (idxs ! i)) |` (- {a, b})) \<and>
      matchesToReconstruct p' = nths (matchesToReconstruct p) {j. int j \<notin> set idxs}"
proof -
  have "\<forall>k\<in>set (take (length coord) idxs). 0 \<le> k \<and> nat k < length (matchesToReconstruct p) \<and>
           (matchesToReconstruct p ! nat k) (fst (a, b)) \<noteq> None \<and>
           (matchesToReconstruct p ! nat k) (snd (a, b)) \<noteq> None"
    using rng obs by (auto dest: in_set_takeD)
  from addPoints_loop_ok[OF len this, of lhsFirst] obtain new where
    l: "addPoints_loop lhsFirst (a, b) idxs coord p =
            Done (p\<lparr>ptCoord := ptCoord p @ coord, ptData := ptData p @ new\<rparr>)"
    and n: "list_all2 (\<lambda>k e. seededFrom (a, b) (matchesToReconstruct p ! nat k) e)
            (take (length coord) idxs) new"
    by blast
  let ?p' = "p\<lparr>ptCoord := ptCoord p @ coord, ptData := ptData p @ new,
               matchesToReconstruct := nths (matchesToReconstruct p) {j. int j \<notin> set idxs}\<rparr>"
  have r: "addPoints lhsFirst (a, b) idxs coord p = Done ?p'"
    using l filterOutOutliers_nths[OF rng] by (simp add: addPoints_def)
  have ln: "length new = length coord"
    using list_all2_lengthD[OF n] len by simp
  have tr: "\<forall>i<length coord. seededFrom (a, b) (matchesToReconstruct p ! nat (idxs ! i)) (new ! i)"
    using n len by (auto simp: list_all2_conv_all_nth)
  show ?thesis
  proof (intro exI[of _ ?p'] conjI allI impI)
    fix i assume i: "i < length coord"
    with tr have s: "seededFrom (a, b) (matchesToReconstruct p ! nat (idxs ! i)) (new ! i)" by simp
    have e: "ptData ?p' ! (length (ptData p) + i) = new ! i" by simp
    show "dom (reconstructed (ptData ?p' ! (length (ptData p) + i))) = {a, b}"
      unfolding e using s by (simp add: seededFrom_def)
    show "reconstructed (ptData ?p' ! (length (ptData p) + i)) a =
           (matchesToReconstruct p ! nat (idxs ! i)) a"
      unfolding e using s by (simp add: seededFrom_def)
    show "reconstructed (ptData ?p' ! (length (ptData p) + i)) b =
           (matchesToReconstruct p ! nat (idxs ! i)) b"
      unfolding e using s by (simp add: seededFrom_def)
    show "toReconstruct (ptData ?p' ! (length (ptData p) + i)) =
           (matchesToReconstruct p ! nat (idxs ! i)) |` (- {a, b})"
      unfolding e using s by (simp add: seededFrom_def)
  qed (use r ln in simp_all)
qed

theorem addPoints_seeds_tracks_witness:
  "addPoints False (0, 1) [0] [(1, 2, 3)]
     \<lparr>matchesToReconstruct = [[0 \<mapsto> 11, 1 \<mapsto> 22, 2 \<mapsto> 33]], ptCoord = [], ptData = []\<rparr> =
   Done \<lparr>matchesToReconstruct = [], ptCoord = [(1, 2, 3)],
        ptData = [\<lparr>reconstructed = [0 \<mapsto> 11, 1 \<mapsto> 22], toReconstruct = [2 \<mapsto> 33]\<rparr>]\<rparr>"
proof -
  let ?p = "\<lparr>matchesToReconstruct = [[0 \<mapsto> 11, 1 \<mapsto> 22, 2 \<mapsto> (33::int)]], ptCoord = [], ptData = []\<rparr>"
  have h1: "length [(1, 2, 3)::Vector3d] \<le> length [0::int]" by simp
  have h2: "\<forall>k\<in>set [0::int]. 0 \<le> k \<and> nat k < length (matchesToReconstruct ?p)" by simp
  have h3: "\<forall>k\<in>set (take (length [(1, 2, 3)::Vector3d]) [0::int]).
      (matchesToReconstruct ?p ! nat k) 0 \<noteq> None \<and> (matchesToReconstruct ?p ! nat k) 1 \<noteq> None"
    by simp
  from addPoints_seeds_tracks[OF h1 h2 h3, of False] obtain p' where
    r: "addPoints False (0, 1) [0] [(1, 2, 3)] ?p = Done p'" by blast
  have "addPoints False (0, 1) [0] [(1, 2, 3)] ?p =
     Done \<lparr>matchesToReconstruct = [], ptCoord = [(1, 2, 3)],
        ptData = [\<lparr>reconstructed = [0 \<mapsto> 11, 1 \<mapsto> 22], toReconstruct = [2 \<mapsto> 33]\<rparr>]\<rparr>"
    by (simp add: addPoints_def pushPoint_def vec_index_def umap_at_def umap_erase_def
        filterOutOutliers_def fun_eq_iff)
  with r show ?thesis by simp
qed

text \<open>
  C5. In every state reached from the empty store by a sequence of calls, whether they
  returned or threw, \<open>ptCoord\<close> and \<open>ptData\<close> have the same length. On such a state
  \<open>removePoints(keep)\<close> with a mask as long as the number of tracks returns normally, and
  both vectors then hold the elements at the positions whose mask entry is set, in their
  former order (and so have the same length again).
\<close>

theorem removePoints_compacts_in_order:
  assumes "run lhsFirst ops Points_init = Some p"
  shows "length (ptCoord p) = length (ptData p) \<and>
    (length keep = length (ptCoord p) \<longrightarrow>
      (\<exists>p'. removePoints keep p = Done p' \<and>
            ptCoord p' = nths (ptCoord p) {i. keep ! i} \<and>
            ptData p' = nths (ptData p) {i. keep ! i} \<and>
            matchesToReconstruct p' = matchesToReconstruct p \<and>
            length (ptCoord p') = length (ptData p')))"
proof -
  have sz: "length (ptCoord p) = length (ptData p)"
    using run_sizes[OF _ assms] by (simp add: Points_init_def)
  show ?thesis
  proof (intro conjI impI)
    show "length (ptCoord p) = length (ptData p)" by (fact sz)
  next
    assume k: "length keep = length (ptCoord p)"
    let ?p' = "p\<lparr>ptCoord := nths (ptCoord p) {i. keep ! i}, ptData := nths (ptData p) {i. keep ! i}\<rparr>"
    have r: "removePoints keep p = Done ?p'"
      using k sz by (simp add: removePoints_def filterVector_nths)
    have "stateOf (exec lhsFirst (RemovePoints keep) p) = Some ?p'" using r by simp
    from exec_sizes[OF sz this] r
    show "\<exists>p'. removePoints keep p = Done p' \<and>
            ptCoord p' = nths (ptCoord p) {i. keep ! i} \<and>
            ptData p' = nths (ptData p) {i. keep ! i} \<and>
            matchesToReconstruct p' = matchesToReconstruct p \<and>
            length (ptCoord p') = length (ptData p')"
      by (intro exI[of _ ?p']) simp
  qed
qed

theorem removePoints_compacts_in_order_witness:
  "run False [AddPointsSplit [(0, 0, 1), (0, 0, 2)]
          [\<lparr>observedPart = [0 \<mapsto> 1], unobservedPart = [3 \<mapsto> 4]\<rparr>,
           \<lparr>observedPart = [0 \<mapsto> 2], unobservedPart = [3 \<mapsto> 5]\<rparr>],
        MarkCam 7] Points_init =
     Some \<lparr>matchesToReconstruct = [], ptCoord = [(0, 0, 1), (0, 0, 2)],
          ptData = [\<lparr>reconstructed = [0 \<mapsto> 1], toReconstruct = [3 \<mapsto> 4]\<rparr>,
                    \<lparr>reconstructed = [0 \<mapsto> 2], toReconstruct = [3 \<mapsto> 5]\<rparr>]\<rparr>
   \<and> removePoints [False, True]
        \<lparr>matchesToReconstruct = [], ptCoord = [(0, 0, 1), (0, 0, 2)],
         ptData = [\<lparr>reconstructed = [0 \<mapsto> 1], toReconstruct = [3 \<mapsto> 4]\<rparr>,
                   \<lparr>reconstructed = [0 \<mapsto> 2], toReconstruct = [3 \<mapsto> 5]\<rparr>]\<rparr> =
     Done \<lparr>matchesToReconstruct = [], ptCoord = [(0, 0, 2)],
          ptData = [\<lparr>reconstructed = [0 \<mapsto> 2], toReconstruct = [3 \<mapsto> 5]\<rparr>]\<rparr>"
proof -
  let ?p = "\<lparr>matchesToReconstruct = [], ptCoord = [(0, 0, 1), (0, 0, 2)],
          ptData = [\<lparr>reconstructed = [0 \<mapsto> 1], toReconstruct = [3 \<mapsto> (4::int)]\<rparr>,
                    \<lparr>reconstructed = [0 \<mapsto> 2], toReconstruct = [3 \<mapsto> 5]\<rparr>]\<rparr>"
  have h: "run False [AddPointsSplit [(0, 0, 1), (0, 0, 2)]
          [\<lparr>observedPart = [0 \<mapsto> 1], unobservedPart = [3 \<mapsto> 4]\<rparr>,
           \<lparr>observedPart = [0 \<mapsto> 2], unobservedPart = [3 \<mapsto> 5]\<rparr>],
        MarkCam 7] Points_init = Some ?p"
    by (simp add: Points_init_def pushPoint_def markCamAsReconstructed_def umap_at_def)
  have k: "length [False, True] = length (ptCoord ?p)" by simp
  from removePoints_compacts_in_order[OF h, of "[False, True]"] k obtain p' where
    r: "removePoints [False, True] ?p = Done p'" by blast
  have "removePoints [False, True] ?p =
     Done \<lparr>matchesToReconstruct = [], ptCoord = [(0, 0, 2)],
          ptData = [\<lparr>reconstructed = [0 \<mapsto> 2], toReconstruct = [3 \<mapsto> 5]\<rparr>]\<rparr>"
    by (simp add: removePoints_def)
  with r h show ?thesis by simp
qed

section \<open>Claims about feature detection\<close>

lemma callbacks_append: "callbacks (xs @ ys) = callbacks xs @ callbacks ys"
  by (induction xs rule: callbacks.induct) simp_all

lemma detectLoop_cams:
  "fst (detectLoop sift cbf cbo d pcams) = map (detectOne sift) pcams"
  by (induction pcams arbitrary: d) (simp_all add: Let_def case_prod_beta)

lemma detectLoop_effects:
  "snd (detectLoop sift (Some fn) (Some ob) d pcams) =
     concat (map (\<lambda>i. [RunSIFT (fcFilename (pcams ! i)), Callback fn ob (d + int i)])
       [0..<length pcams])"
proof (induction pcams arbitrary: d)
  case Nil
  then show ?case by simp
next
  case (Cons pcam pcams)
  have "concat (map (\<lambda>i. [RunSIFT (fcFilename ((pcam # pcams) ! i)), Callback fn ob (d + int i)])
          [0..<length (pcam # pcams)]) =
        [RunSIFT (fcFilename pcam), Callback fn ob d] @
        concat (map (\<lambda>i. [RunSIFT (fcFilename (pcams ! i)), Callback fn ob (d + 1 + int i)])
          [0..<length pcams])"
    by (simp add: upt_conv_Cons map_Suc_upt[symmetric] comp_def add.assoc del: upt_Suc)
  with Cons.IH[of "d + 1"] show ?case
    by (simp add: Let_def case_prod_beta)
qed

lemma detectLoop_callbacks:
  "callbacks (snd (detectLoop sift (Some fn) (Some ob) d pcams)) =
     map (\<lambda>i. (fn, ob, d + int i)) [0..<length pcams]"
proof (induction pcams arbitrary: d)
  case Nil
  then show ?case by simp
next
  case (Cons pcam pcams)
  have "map (\<lambda>i. (fn, ob, d + int i)) [0..<length (pcam # pcams)] =
        (fn, ob, d) # map (\<lambda>i. (fn, ob, d + 1 + int i)) [0..<length pcams]"
    by (simp add: upt_conv_Cons map_Suc_upt[symmetric] comp_def add.assoc del: upt_Suc)
  with Cons.IH[of "d + 1"] show ?case
    by (simp add: Let_def case_prod_beta)
qed

lemma detectLoop_no_callbacks:
  "cbf = None \<or> cbo = None \<Longrightarrow> callbacks (snd (detectLoop sift cbf cbo d pcams)) = []"
proof (induction pcams arbitrary: d)
  case Nil
  then show ?case by simp
next
  case (Cons pcam pcams)
  from Cons.prems have "(case (cbf, cbo) of (Some fn, Some ob) \<Rightarrow> [Callback fn ob d] | _ \<Rightarrow> []) = []"
    by (auto split: option.splits)
  with Cons.IH[OF Cons.prems, of "d + 1"] show ?case
    by (simp add: Let_def case_prod_beta)
qed

text \<open>
  C7, as stated. The progress callback receives the completed count: at each call, the
  number of cameras whose detection has finished. This fails: for a batch of one camera
  the only call comes after that camera's detector run and receives 0.
\<close>

theorem callback_argument_counterexample:
  "snd (detectSiftGPU \<lparr>contextFullySupported = True, runSIFT = [''a.jpg'' \<mapsto> []]\<rparr>
          [\<lparr>fcFilename = ''a.jpg'', fcWidth = 640, fcHeight = 480, features = []\<rparr>]
          (Some (7::nat)) (Some (9::nat))) =
     [ParseParam, AllocatePyramid 640 480, RunSIFT ''a.jpg'', Callback 7 9 0]
   \<and> \<not> reportsCompletedCount 0
         [ParseParam, AllocatePyramid 640 480, RunSIFT ''a.jpg'', Callback (7::nat) (9::nat) 0]"
  by (simp add: detectSiftGPU_def initializeSiftGPU_def detectOne_def Let_def)

text \<open>
  C7, amended. When the detector context was created and both the callback pointer and its
  object pointer are non-null, the batch \<open>detectSiftGPU\<close> calls the callback exactly once
  per camera, directly after that camera's detector run, and the second argument is the
  zero-based position of that camera in the batch, that is, the number of cameras
  completed before it (0 for the first camera, \<open>n - 1\<close> for the last). When either
  pointer is null, no callback is called.
\<close>

theorem detectSiftGPU_progress_callbacks:
  "(contextFullySupported sift \<longrightarrow>
      snd (detectSiftGPU sift pcams (Some fn) (Some ob)) =
        [ParseParam, AllocatePyramid (fst (maxDims pcams (- 1, - 1))) (snd (maxDims pcams (- 1, - 1)))] @
        concat (map (\<lambda>i. [RunSIFT (fcFilename (pcams ! i)), Callback fn ob (int i)])
          [0..<length pcams]) \<and>
      callbacks (snd (detectSiftGPU sift pcams (Some fn) (Some ob))) =
        map (\<lambda>i. (fn, ob, int i)) [0..<length pcams]) \<and>
   (callbackFunction = None \<or> callbackObjectPtr = None \<longrightarrow>
      callbacks (snd (detectSiftGPU sift pcams callbackFunction callbackObjectPtr)) = [])"
proof (intro conjI impI)
  assume s: "contextFullySupported sift"
  show "snd (detectSiftGPU sift pcams (Some fn) (Some ob)) =
        [ParseParam, AllocatePyramid (fst (maxDims pcams (- 1, - 1))) (snd (maxDims pcams (- 1, - 1)))] @
        concat (map (\<lambda>i. [RunSIFT (fcFilename (pcams ! i)), Callback fn ob (int i)])
          [0..<length pcams])"
    using s detectLoop_effects[of sift fn ob 0 pcams]
    by (simp add: detectSiftGPU_def initializeSiftGPU_def Let_def case_prod_beta)
  show "callbacks (snd (detectSiftGPU sift pcams (Some fn) (Some ob))) =
        map (\<lambda>i. (fn, ob, int i)) [0..<length pcams]"
    using s detectLoop_callbacks[of sift fn ob 0 pcams]
    by (simp add: detectSiftGPU_def initializeSiftGPU_def Let_def case_prod_beta)
next
  assume n: "callbackFunction = None \<or> callbackObjectPtr = None"
  show "callbacks (snd (detectSiftGPU sift pcams callbackFunction callbackObjectPtr)) = []"
    using detectLoop_no_callbacks[OF n, of sift 0 pcams]
    by (simp add: detectSiftGPU_def initializeSiftGPU_def Let_def callbacks_append
        case_prod_beta)
qed

theorem detectSiftGPU_progress_callbacks_witness:
  "callbacks (snd (detectSiftGPU \<lparr>contextFullySupported = True, runSIFT = [''a.jpg'' \<mapsto> []]\<rparr>
          [\<lparr>fcFilename = ''a.jpg'', fcWidth = 640, fcHeight = 480, features = []\<rparr>,
           \<lparr>fcFilename = ''b.jpg'', fcWidth = 800, fcHeight = 600, features = []\<rparr>]
          (Some (7::nat)) (Some (9::nat)))) = [(7, 9, 0), (7, 9, 1)]
   \<and> callbacks (snd (detectSiftGPU \<lparr>contextFullySupported = True, runSIFT = [''a.jpg'' \<mapsto> []]\<rparr>
          [\<lparr>fcFilename = ''a.jpg'', fcWidth = 640, fcHeight = 480, features = []\<rparr>,
           \<lparr>fcFilename = ''b.jpg'', fcWidth = 800, fcHeight = 600, features = []\<rparr>]
          (Some (7::nat)) (None :: nat option))) = []"
proof -
  let ?sift = "\<lparr>contextFullySupported = True, runSIFT = [''a.jpg'' \<mapsto> []]\<rparr>"
  let ?pcams = "[\<lparr>fcFilename = ''a.jpg'', fcWidth = 640, fcHeight = 480, features = []\<rparr>,
           \<lparr>fcFilename = ''b.jpg'', fcWidth = 800, fcHeight = 600, features = []\<rparr>]"
  have h1: "contextFullySupported ?sift" by simp
  have h2: "Some (7::nat) = None \<or> (None :: nat option) = None" by simp
  note T = detectSiftGPU_progress_callbacks[of ?sift ?pcams "7::nat" "9::nat" "Some (7::nat)" "None::nat option"]
  from T h1 have c1: "callbacks (snd (detectSiftGPU ?sift ?pcams (Some (7::nat)) (Some (9::nat)))) =
      map (\<lambda>i. (7, 9, int i)) [0..<length ?pcams]"
    by blast
  have u: "map (\<lambda>i. (7::nat, 9::nat, int i)) [0..<length ?pcams] = [(7, 9, 0), (7, 9, 1)]"
    by (simp add: upt_conv_Cons)
  from T h2 have c2: "callbacks (snd (detectSiftGPU ?sift ?pcams (Some (7::nat)) (None::nat option))) = []"
    by blast
  from c1 c2 show ?thesis unfolding u by (intro conjI)
qed

text \<open>
  C8. When the detector context cannot be created, the batch \<open>detectSiftGPU\<close> returns
  with every camera as it was (a camera that had no features still has none), without a
  detector run and without a call of the progress callback; besides forwarding the
  options, all it does is to print the error message.
\<close>

theorem detectSiftGPU_abandons_batch:
  "\<not> contextFullySupported sift \<Longrightarrow>
   detectSiftGPU sift pcams callbackFunction callbackObjectPtr =
     (pcams, [ParseParam,
        CerrMessage ''ERROR: SiftGPUAutoMemRelease::initialize: Could not create OpenGL context.\<newline>'']) \<and>
   callbacks (snd (detectSiftGPU sift pcams callbackFunction callbackObjectPtr)) = []"
  by (simp add: detectSiftGPU_def initializeSiftGPU_def Let_def case_prod_beta)

theorem detectSiftGPU_abandons_batch_witness:
  "detectSiftGPU \<lparr>contextFullySupported = False, runSIFT = [''a.jpg'' \<mapsto> []]\<rparr>
      [\<lparr>fcFilename = ''a.jpg'', fcWidth = 640, fcHeight = 480, features = []\<rparr>,
       \<lparr>fcFilename = ''b.jpg'', fcWidth = 800, fcHeight = 600, features = []\<rparr>,
       \<lparr>fcFilename = ''c.jpg'', fcWidth = 800, fcHeight = 600, features = []\<rparr>]
      (Some (7::nat)) (Some (9::nat)) =
     ([\<lparr>fcFilename = ''a.jpg'', fcWidth = 640, fcHeight = 480, features = []\<rparr>,
       \<lparr>fcFilename = ''b.jpg'', fcWidth = 800, fcHeight = 600, features = []\<rparr>,
       \<lparr>fcFilename = ''c.jpg'', fcWidth = 800, fcHeight = 600, features = []\<rparr>],
      [ParseParam,
       CerrMessage ''ERROR: SiftGPUAutoMemRelease::initialize: Could not create OpenGL context.\<newline>''])"
proof -
  have h: "\<not> contextFullySupported \<lparr>contextFullySupported = False, runSIFT = [''a.jpg'' \<mapsto> []]\<rparr>"
    by simp
  from detectSiftGPU_abandons_batch[OF h] show ?thesis by blast
qed

section \<open>Claims about datasets and cameras\<close>

lemma copyIn_cams: "cams (copyIn this other) = cams this @ map clone (cams other)"
proof -
  have "fold (\<lambda>cam cs. cs @ [clone cam]) xs ys = ys @ map clone xs" for xs ys
    by (induction xs arbitrary: ys) simp_all
  then show ?thesis by (simp add: copyIn_def)
qed

lemma clone_eq: "clone c = c"
  by (cases c) simp_all

lemma Dataset_copy_eq: "Dataset_copy (other :: 'cp Dataset) = other"
proof -
  have "fold (\<lambda>cam cs. cs @ [clone cam]) xs ys = ys @ xs" for xs ys
    by (induction xs arbitrary: ys) (simp_all add: clone_eq)
  then show ?thesis by (simp add: Dataset_copy_def copyIn_def)
qed

text \<open>
  C9, evaluated on the code. Copy construction gives a dataset equal to the source
  (\<open>Dataset_copy_eq\<close>). Copy assignment does not: \<open>copyIn\<close> never empties \<open>cams_\<close>, so
  assigning a dataset with one camera to a dataset that already has one camera leaves the
  target with two cameras, its own followed by the clone.
\<close>

theorem Dataset_assign_keeps_old_cameras:
  "cams (Dataset_assign
      \<lparr>dir = ''a'', cams = [ACamera (Camera_ctor Map.empty ''a.jpg'')],
       pairs = Map.empty :: int \<times> int \<rightharpoonup> unit, reconstructedCams = {}, points = Points_init\<rparr>
      \<lparr>dir = ''b'', cams = [ACamera (Camera_ctor Map.empty ''b.jpg'')],
       pairs = Map.empty, reconstructedCams = {}, points = Points_init\<rparr>) =
   [ACamera (Camera_ctor Map.empty ''a.jpg''), ACamera (Camera_ctor Map.empty ''b.jpg'')]"
  by (simp add: Dataset_assign_def copyIn_def)

lemma reserveFeatures_camF: "reserveFeatures num dm cam = Inr cam' \<Longrightarrow> camF cam' = camF cam"
  by (auto simp: reserveFeatures_def split: sum.splits if_splits)

lemma addFeature_camF: "addFeature kx ky d cam = Inr cam' \<Longrightarrow> camF cam' = camF cam"
  by (auto simp: addFeature_def Let_def split: sum.splits)

lemma clearDescriptors_camF: "clearDescriptors cam = Inr cam' \<Longrightarrow> camF cam' = camF cam"
  by (auto simp: clearDescriptors_def split: sum.splits)

lemma constrainFocal_camF: "constrainFocal c w cam = Inr cam' \<Longrightarrow> camF cam' = camF cam"
  by (auto simp: constrainFocal_def split: sum.splits)

lemma setParamsConstraints_camF:
  "setParamsConstraints cs ws cam = Inr cam' \<Longrightarrow> camF cam' = camF cam"
  by (auto simp: setParamsConstraints_def split: sum.splits prod.splits)

lemma constrainRadial_camF: "constrainRadial cs ws cam = Inr cam' \<Longrightarrow> camF cam' = camF cam"
  by (auto simp: constrainRadial_def split: sum.splits)

lemma camExec_camF: "camExec frm opn cam = Inr cam' \<Longrightarrow> camF cam' = camF cam"
  by (cases opn)
     (auto simp: setRotation_def setC_def
        dest: reserveFeatures_camF addFeature_camF clearDescriptors_camF constrainFocal_camF
          setParamsConstraints_camF constrainRadial_camF)

lemma camRun_camF: "camRun frm ops cam = Inr cam' \<Longrightarrow> camF cam' = camF cam"
proof (induction ops arbitrary: cam)
  case Nil
  then show ?case by simp
next
  case (Cons opn ops)
  from Cons.prems obtain cam1 where s: "camExec frm opn cam = Inr cam1" "camRun frm ops cam1 = Inr cam'"
    by (auto split: sum.splits)
  from Cons.IH[OF s(2)] camExec_camF[OF s(1)] show ?case by simp
qed

lemma StandardCamera_ctor_camF: "camF (StandardCamera_ctor gid fn) = 0"
  by (simp add: StandardCamera_ctor_def Let_def)

lemma StandardCameraRadial_ctor_camF: "camF (StandardCameraRadial_ctor gid fn) = 0"
  by (simp add: StandardCameraRadial_ctor_def StandardCamera_ctor_def Let_def)

lemma StandardCamera_keyNormalized_zero_focal:
  "camF cam = 0 \<Longrightarrow> 0 \<le> i \<Longrightarrow> nat i < length (keys cam) \<Longrightarrow>
   StandardCamera_keyNormalized cam i = Inr (None, None)"
  by (simp add: StandardCamera_keyNormalized_def key_def vec_index_def ddiv_def split: prod.splits)

text \<open>
  C10. A \<open>StandardCamera\<close> or \<open>StandardCameraRadial\<close> that has been constructed and then
  changed only by member functions other than \<open>setFocal\<close> and \<open>setParams\<close> has focal
  length 0, and \<open>keyNormalized(i)\<close> on it, for an existing key \<open>i\<close>, divides both
  coordinates by that zero.
\<close>

theorem keyNormalized_divides_by_zero_until_focal_set:
  "(camRun frm ops (StandardCamera_ctor getImgDims fn) = Inr cam \<and>
      0 \<le> i \<and> nat i < length (keys cam) \<longrightarrow>
      camF cam = 0 \<and> StandardCamera_keyNormalized cam i = Inr (None, None)) \<and>
   (camRun frm ops' (StandardCameraRadial_ctor getImgDims fn) = Inr rcam \<and>
      0 \<le> j \<and> nat j < length (keys rcam) \<longrightarrow>
      camF rcam = 0 \<and> StandardCameraRadial_keyNormalized rcam j = Inr (None, None))"
proof (intro conjI impI)
  assume a: "camRun frm ops (StandardCamera_ctor getImgDims fn) = Inr cam \<and>
      0 \<le> i \<and> nat i < length (keys cam)"
  then show f: "camF cam = 0"
    using camRun_camF[of frm ops "StandardCamera_ctor getImgDims fn" cam]
    by (simp add: StandardCamera_ctor_camF)
  show "StandardCamera_keyNormalized cam i = Inr (None, None)"
    using a f by (simp add: StandardCamera_keyNormalized_zero_focal)
next
  assume a: "camRun frm ops' (StandardCameraRadial_ctor getImgDims fn) = Inr rcam \<and>
      0 \<le> j \<and> nat j < length (keys rcam)"
  then show f: "camF rcam = 0"
    using camRun_camF[of frm ops' "StandardCameraRadial_ctor getImgDims fn" rcam]
    by (simp add: StandardCameraRadial_ctor_camF)
  show "StandardCameraRadial_keyNormalized rcam j = Inr (None, None)"
    using a f by (simp add: StandardCameraRadial_keyNormalized_def
        StandardCamera_keyNormalized_zero_focal)
qed

theorem keyNormalized_divides_by_zero_until_focal_set_witness:
  "camRun (Pair 0 \<circ> fst) [ReserveFeatures 1 2, AddFeature 3 4 [5, 6], SetC (1, 1, 1)]
     (StandardCamera_ctor [''a.jpg'' \<mapsto> (640, 480)] ''a.jpg'') =
   Inr \<lparr>imgWidth = 640, imgHeight = 480, imgFilename = ''a.jpg'', keys = [(3, 4)],
        descr = \<lparr>rows = 2, cols = 1, coeffs = [Some 5, Some 6]\<rparr>,
        camC = (1, 1, 1), camRot = None, camF = 0, camX0 = (639 / 2, 479 / 2),
        paramsConstraints = [0, 0, 0, 0, 0, 0, 0],
        paramsConstraintsWeights = [0, 0, 0, 0, 0, 0, 0]\<rparr>
   \<and> StandardCamera_keyNormalized
       \<lparr>imgWidth = 640, imgHeight = 480, imgFilename = ''a.jpg'', keys = [(3, 4)],
        descr = \<lparr>rows = 2, cols = 1, coeffs = [Some 5, Some 6]\<rparr>,
        camC = (1, 1, 1), camRot = None, camF = 0, camX0 = (639 / 2, 479 / 2),
        paramsConstraints = [0, 0, 0, 0, 0, 0, 0],
        paramsConstraintsWeights = [0, 0, 0, 0, 0, 0, 0]\<rparr> 0 = Inr (None, None)
   \<and> camRun (Pair 0 \<circ> fst) [ReserveFeatures 1 2, AddFeature 3 4 [5, 6], ConstrainRadial (1, 1) (2, 2)]
     (StandardCameraRadial_ctor [''a.jpg'' \<mapsto> (640, 480)] ''a.jpg'') =
   Inr \<lparr>imgWidth = 640, imgHeight = 480, imgFilename = ''a.jpg'', keys = [(3, 4)],
        descr = \<lparr>rows = 2, cols = 1, coeffs = [Some 5, Some 6]\<rparr>,
        camC = (0, 0, 0), camRot = None, camF = 0, camX0 = (639 / 2, 479 / 2),
        paramsConstraints = [0, 0, 0, 0, 0, 0, 0, 1, 1],
        paramsConstraintsWeights = [0, 0, 0, 0, 0, 0, 0, 2, 2],
        radParams = (0, 0), invRadParams = (0, 0, 0, 0)\<rparr>
   \<and> StandardCameraRadial_keyNormalized
       \<lparr>imgWidth = 640, imgHeight = 480, imgFilename = ''a.jpg'', keys = [(3, 4)],
        descr = \<lparr>rows = 2, cols = 1, coeffs = [Some 5, Some 6]\<rparr>,
        camC = (0, 0, 0), camRot = None, camF = 0, camX0 = (639 / 2, 479 / 2),
        paramsConstraints = [0, 0, 0, 0, 0, 0, 0, 1, 1],
        paramsConstraintsWeights = [0, 0, 0, 0, 0, 0, 0, 2, 2],
        radParams = (0, 0), invRadParams = (0, 0, 0, 0)\<rparr> 0 = Inr (None, None)"
proof -
  let ?cam = "\<lparr>imgWidth = 640, imgHeight = 480, imgFilename = ''a.jpg'', keys = [(3, 4)],
        descr = \<lparr>rows = 2, cols = 1, coeffs = [Some 5, Some 6]\<rparr>,
        camC = (1, 1, 1), camRot = None, camF = 0, camX0 = (639 / 2, 479 / 2),
        paramsConstraints = [0, 0, 0, 0, 0, 0, 0],
        paramsConstraintsWeights = [0, 0, 0, 0, 0, 0, 0]\<rparr>"
  let ?rcam = "\<lparr>imgWidth = 640, imgHeight = 480, imgFilename = ''a.jpg'', keys = [(3, 4)],
        descr = \<lparr>rows = 2, cols = 1, coeffs = [Some 5, Some 6]\<rparr>,
        camC = (0, 0, 0), camRot = None, camF = 0, camX0 = (639 / 2, 479 / 2),
        paramsConstraints = [0, 0, 0, 0, 0, 0, 0, 1, 1],
        paramsConstraintsWeights = [0, 0, 0, 0, 0, 0, 0, 2, 2],
        radParams = (0, 0), invRadParams = (0, 0, 0, 0)\<rparr>"
  have h1: "camRun (Pair 0 \<circ> fst) [ReserveFeatures 1 2, AddFeature 3 4 [5, 6], SetC (1, 1, 1)]
     (StandardCamera_ctor [''a.jpg'' \<mapsto> (640, 480)] ''a.jpg'') = Inr ?cam"
    by (simp add: StandardCamera_ctor_def Camera_ctor_def reserveFeatures_def resize_def
        addFeature_def setCol_def setC_def nParams_def Let_def numeral_eq_Suc)
  have h2: "camRun (Pair 0 \<circ> fst) [ReserveFeatures 1 2, AddFeature 3 4 [5, 6], ConstrainRadial (1, 1) (2, 2)]
     (StandardCameraRadial_ctor [''a.jpg'' \<mapsto> (640, 480)] ''a.jpg'') = Inr ?rcam"
    by (simp add: StandardCameraRadial_ctor_def StandardCamera_ctor_def Camera_ctor_def
        reserveFeatures_def resize_def addFeature_def setCol_def constrainRadial_def
        vec_store_def radIdx_def nParams_def Let_def numeral_eq_Suc)
  have i: "(0::int) \<le> 0 \<and> nat 0 < length (keys ?cam)" "(0::int) \<le> 0 \<and> nat 0 < length (keys ?rcam)"
    by simp_all
  from keyNormalized_divides_by_zero_until_focal_set[of "Pair 0 \<circ> fst" _ _ _ ?cam 0 _ ?rcam 0]
    h1 h2 i show ?thesis by blast
qed

end
